theory Spec2Isabelle
  imports Main "HOL-Library.Word" "HOL-Library.Sublist" "HOL-Library.AList"
begin

section \<open>JavaScript strings\<close>

text \<open>
  A JavaScript string is a sequence of UTF-16 code units: \<open>length\<close>, \<open>substring\<close> and the
  regular expressions of \<open>installer.ts\<close> (none has the \<open>u\<close> flag) all count code units.
  \<open>js\<close> turns an ASCII literal into such a string.
\<close>

type_synonym jschar = "16 word"
type_synonym jsstring = "jschar list"

definition js :: "string \<Rightarrow> jsstring" where
  "js s = map of_char s"

abbreviation CHAR_NUL :: jschar where "CHAR_NUL \<equiv> 0x00"
abbreviation CHAR_DOT :: jschar where "CHAR_DOT \<equiv> 0x2E"
abbreviation CHAR_FORWARD_SLASH :: jschar where "CHAR_FORWARD_SLASH \<equiv> 0x2F"
abbreviation CHAR_COLON :: jschar where "CHAR_COLON \<equiv> 0x3A"
abbreviation CHAR_BACKWARD_SLASH :: jschar where "CHAR_BACKWARD_SLASH \<equiv> 0x5C"
abbreviation CHAR_UNDERSCORE :: jschar where "CHAR_UNDERSCORE \<equiv> 0x5F"

text \<open>
  The class \<open>\s\<close> of an ECMAScript regular expression: TAB, LF, VT, FF, CR, SPACE, NBSP,
  U+1680, U+2000 to U+200A, LS, PS, U+202F, U+205F, U+3000 and the byte order mark U+FEFF.
\<close>

definition js_whitespace :: "jschar \<Rightarrow> bool" where
  "js_whitespace c \<longleftrightarrow>
     c \<in> {0x09, 0x0A, 0x0B, 0x0C, 0x0D, 0x20, 0xA0, 0x1680,
          0x2028, 0x2029, 0x202F, 0x205F, 0x3000, 0xFEFF}
     \<or> (0x2000 \<le> c \<and> c \<le> 0x200A)"

section \<open>sanitizeName\<close>

text \<open>The character class \<open>[\/\\:\0]\<close> of the first replacement.\<close>

definition path_char :: "jschar \<Rightarrow> bool" where
  "path_char c \<longleftrightarrow>
     c = CHAR_FORWARD_SLASH \<or> c = CHAR_BACKWARD_SLASH \<or> c = CHAR_COLON \<or> c = CHAR_NUL"

text \<open>The character class \<open>[.\s]\<close> of the second replacement.\<close>

definition dot_or_space :: "jschar \<Rightarrow> bool" where
  "dot_or_space c \<longleftrightarrow> c = CHAR_DOT \<or> js_whitespace c"

text \<open>\<open>s.replace(/[\/\\:\0]/g, '')\<close>: every match is deleted.\<close>

definition remove_path_chars :: "jsstring \<Rightarrow> jsstring" where
  "remove_path_chars s = filter (\<lambda>c. \<not> path_char c) s"

text \<open>
  \<open>s.replace(/^[.\s]+|[.\s]+$/g, '')\<close>: the first alternative matches the maximal run of
  the class at the start of the string, the second the maximal run at its end; both are
  deleted.
\<close>

definition trim_dots_spaces :: "jsstring \<Rightarrow> jsstring" where
  "trim_dots_spaces s = rev (dropWhile dot_or_space (rev (dropWhile dot_or_space s)))"

text \<open>\<open>s.replace(/^\.+/, '')\<close>.\<close>

definition remove_leading_dots :: "jsstring \<Rightarrow> jsstring" where
  "remove_leading_dots s = dropWhile (\<lambda>c. c = CHAR_DOT) s"

definition sanitizeName :: "jsstring \<Rightarrow> jsstring" where
  "sanitizeName name =
     (let sanitized = remove_path_chars name;
          sanitized = trim_dots_spaces sanitized;
          sanitized = remove_leading_dots sanitized;
          sanitized = (if sanitized = [] then js ''unnamed-skill'' else sanitized);
          sanitized = (if length sanitized > 255 then take 255 sanitized else sanitized)
      in sanitized)"

text \<open>The name as it is after the three replacements, before the fallback and the cut.\<close>

definition stripped_name :: "jsstring \<Rightarrow> jsstring" where
  "stripped_name name = remove_leading_dots (trim_dots_spaces (remove_path_chars name))"

text \<open>A name of 256 code units: 254 times \<open>a\<close>, then \<open>.b\<close>.\<close>

definition long_name :: jsstring where
  "long_name = replicate 254 0x61 @ js ''.b''"

section \<open>The path module\<close>

text \<open>
  \<open>installer.ts\<close> imports \<open>join\<close>, \<open>basename\<close>, \<open>normalize\<close>, \<open>resolve\<close>, \<open>sep\<close> and
  \<open>relative\<close> from Node's \<open>path\<close>. They are modelled here for a POSIX host, where \<open>sep\<close> is
  \<open>/\<close>, on the segments of a path: \<open>normalizeString\<close> drops empty and \<open>.\<close> segments, and a
  \<open>..\<close> segment removes the segment before it, or stays when there is none to remove and the
  path is relative.
\<close>

text \<open>
  The host of the process: the directory it works in, the home directory of the user and
  the platform. \<open>process.cwd()\<close> and \<open>os.homedir()\<close> are calls that can throw; they are
  modelled with the file system, below. \<open>no_homedir\<close> says that the host knows no home
  directory for the user, and \<open>process_cwd\<close> and \<open>homedir\<close> are what the calls return
  when they return.
\<close>

record env =
  process_cwd :: jsstring
  homedir :: jsstring
  no_homedir :: bool
  platform :: jsstring

definition sep :: jsstring where
  "sep = js ''/''"

primrec split_slash :: "jsstring \<Rightarrow> jsstring list" where
  "split_slash [] = [[]]"
| "split_slash (c # cs) =
     (if c = CHAR_FORWARD_SLASH then [] # split_slash cs
      else (case split_slash cs of [] \<Rightarrow> [[c]] | s # ss \<Rightarrow> (c # s) # ss))"

fun join_slash :: "jsstring list \<Rightarrow> jsstring" where
  "join_slash [] = []"
| "join_slash [s] = s"
| "join_slash (s # ss) = s @ CHAR_FORWARD_SLASH # join_slash ss"

definition normalize_step :: "bool \<Rightarrow> jsstring list \<Rightarrow> jsstring \<Rightarrow> jsstring list" where
  "normalize_step allowAboveRoot res seg =
     (if seg = [] \<or> seg = js ''.'' then res
      else if seg = js ''..'' then
        (if res \<noteq> [] \<and> last res \<noteq> js ''..'' then butlast res
         else if allowAboveRoot then res @ [js ''..'']
         else res)
      else res @ [seg])"

definition normalize_segments :: "bool \<Rightarrow> jsstring list \<Rightarrow> jsstring list" where
  "normalize_segments allowAboveRoot segs = foldl (normalize_step allowAboveRoot) [] segs"

definition normalizeString :: "jsstring \<Rightarrow> bool \<Rightarrow> jsstring" where
  "normalizeString path allowAboveRoot =
     join_slash (normalize_segments allowAboveRoot (split_slash path))"

definition isAbsolute :: "jsstring \<Rightarrow> bool" where
  "isAbsolute path \<longleftrightarrow> path \<noteq> [] \<and> hd path = CHAR_FORWARD_SLASH"

definition normalize :: "jsstring \<Rightarrow> jsstring" where
  "normalize path =
     (if path = [] then js ''.''
      else
        let trailingSeparator = (last path = CHAR_FORWARD_SLASH);
            p = normalizeString path (\<not> isAbsolute path)
        in if p = [] then
             (if isAbsolute path then js ''/''
              else if trailingSeparator then js ''./'' else js ''.'')
           else
             (let p = (if trailingSeparator then p @ js ''/'' else p)
              in if isAbsolute path then CHAR_FORWARD_SLASH # p else p))"

definition join :: "jsstring list \<Rightarrow> jsstring" where
  "join args =
     (case filter (\<lambda>arg. arg \<noteq> []) args of
        [] \<Rightarrow> js ''.''
      | joined \<Rightarrow> normalize (join_slash joined))"

text \<open>
  \<open>resolve\<close> goes through its arguments from the right, then the working directory of the
  process, until the path built so far is absolute; empty arguments are skipped. It calls
  \<open>process.cwd()\<close> when no argument is absolute: \<open>resolve e\<close> is what it returns once that
  call has returned, and \<open>resolve_call\<close>, below, is the call with the error it can throw.
  The same holds of \<open>relative\<close> and of \<open>isPathSafe\<close>, which call \<open>resolve\<close>.
\<close>

fun resolve_loop :: "jsstring list \<Rightarrow> jsstring \<Rightarrow> jsstring \<times> bool" where
  "resolve_loop [] resolvedPath = (resolvedPath, False)"
| "resolve_loop (path # paths) resolvedPath =
     (if path = [] then resolve_loop paths resolvedPath
      else if hd path = CHAR_FORWARD_SLASH
        then (path @ CHAR_FORWARD_SLASH # resolvedPath, True)
        else resolve_loop paths (path @ CHAR_FORWARD_SLASH # resolvedPath))"

definition resolve :: "env \<Rightarrow> jsstring list \<Rightarrow> jsstring" where
  "resolve e args =
     (case resolve_loop (rev (process_cwd e # args)) [] of
        (resolvedPath, resolvedAbsolute) \<Rightarrow>
          let resolvedPath = normalizeString resolvedPath (\<not> resolvedAbsolute)
          in if resolvedAbsolute then CHAR_FORWARD_SLASH # resolvedPath
             else if resolvedPath \<noteq> [] then resolvedPath else js ''.'')"

text \<open>The segments of an absolute, resolved path: those after the leading \<open>/\<close>.\<close>

definition segments :: "jsstring \<Rightarrow> jsstring list" where
  "segments path = filter (\<lambda>s. s \<noteq> []) (split_slash path)"

fun common_prefix :: "jsstring list \<Rightarrow> jsstring list \<Rightarrow> nat" where
  "common_prefix (x # xs) (y # ys) = (if x = y then Suc (common_prefix xs ys) else 0)"
| "common_prefix _ _ = 0"

text \<open>
  \<open>relative\<close> resolves both paths, climbs with one \<open>..\<close> for each segment of \<open>from\<close> after
  the common ones, and descends along the remaining segments of \<open>to\<close>.
\<close>

definition relative :: "env \<Rightarrow> jsstring \<Rightarrow> jsstring \<Rightarrow> jsstring" where
  "relative e from to =
     (if from = to then []
      else
        let fromSegs = segments (resolve e [from]);
            toSegs = segments (resolve e [to]);
            n = common_prefix fromSegs toSegs
        in join_slash (replicate (length fromSegs - n) (js ''..'') @ drop n toSegs))"

definition basename :: "jsstring \<Rightarrow> jsstring" where
  "basename path = (case segments path of [] \<Rightarrow> [] | segs \<Rightarrow> last segs)"

definition dirname :: "jsstring \<Rightarrow> jsstring" where
  "dirname path =
     (case butlast (segments path) of
        [] \<Rightarrow> (if isAbsolute path then js ''/'' else js ''.'')
      | segs \<Rightarrow> (if isAbsolute path then CHAR_FORWARD_SLASH # join_slash segs
                else join_slash segs))"

section \<open>isPathSafe\<close>

definition isPathSafe :: "env \<Rightarrow> jsstring \<Rightarrow> jsstring \<Rightarrow> bool" where
  "isPathSafe e basePath targetPath =
     (let normalizedBase = normalize (resolve e [basePath]);
          normalizedTarget = normalize (resolve e [targetPath])
      in prefix (normalizedBase @ sep) normalizedTarget \<or> normalizedTarget = normalizedBase)"

text \<open>A host for the examples: the process runs in \<open>/proj\<close>, the home directory is \<open>/home/u\<close>.\<close>

definition host :: env where
  "host = \<lparr>process_cwd = js ''/proj'', homedir = js ''/home/u'', no_homedir = False,
     platform = js ''linux''\<rparr>"

section \<open>The file system\<close>

text \<open>
  The calls of \<open>fs/promises\<close> that \<open>installer.ts\<close> makes act on a state: the nodes of the
  file system, each at its location (the names from the root directory to it), and the
  mutating calls made so far, in order. A call returns a value or throws an error, and
  leaves a state in both cases; \<open>None\<close> stands for a computation that does not return.

  A path is followed as the host follows it: from the root when it is absolute and from
  the working directory of the process otherwise, one segment at a time, through at most
  \<open>MAXSYMLINKS\<close> symbolic links; a path of more than \<open>PATH_MAX\<close> code units is refused.
  Permissions are not modelled; \<open>symlinks_permitted\<close> says whether the host lets the process
  create symbolic links at all.
\<close>

datatype node = File jsstring | Dir | Link jsstring

type_synonym location = "jsstring list"

datatype errno = ENOENT | ENOTDIR | EEXIST | EISDIR | EINVAL | ELOOP | EPERM | ENAMETOOLONG

datatype call =
    Mkdir jsstring
  | Cp jsstring jsstring
  | Rm jsstring bool
  | Symlink jsstring jsstring

datatype Dirent = Dirent jsstring node

record fs =
  nodes :: "(location \<times> node) list"
  calls :: "call list"
  symlinks_permitted :: bool

type_synonym 'a io = "fs \<Rightarrow> ((errno + 'a) \<times> fs) option"

definition PATH_MAX :: nat where
  "PATH_MAX = 4096"

definition MAXSYMLINKS :: nat where
  "MAXSYMLINKS = 40"

definition return :: "'a \<Rightarrow> 'a io" where
  "return x s = Some (Inr x, s)"

definition throw :: "errno \<Rightarrow> 'a io" where
  "throw err s = Some (Inl err, s)"

definition bind :: "'a io \<Rightarrow> ('a \<Rightarrow> 'b io) \<Rightarrow> 'b io" where
  "bind m f s =
     (case m s of
        None \<Rightarrow> None
      | Some (Inl err, s') \<Rightarrow> Some (Inl err, s')
      | Some (Inr x, s') \<Rightarrow> f x s')"

definition try_catch :: "'a io \<Rightarrow> (errno \<Rightarrow> 'a io) \<Rightarrow> 'a io" where
  "try_catch m handler s =
     (case m s of
        None \<Rightarrow> None
      | Some (Inl err, s') \<Rightarrow> handler err s'
      | Some (Inr x, s') \<Rightarrow> Some (Inr x, s'))"

definition log_call :: "call \<Rightarrow> unit io" where
  "log_call c s = Some (Inr (), s\<lparr>calls := calls s @ [c]\<rparr>)"

definition node_at :: "fs \<Rightarrow> location \<Rightarrow> node option" where
  "node_at s loc = (if loc = [] then Some Dir else map_of (nodes s) loc)"

definition put_node :: "location \<Rightarrow> node \<Rightarrow> fs \<Rightarrow> fs" where
  "put_node loc n s = s\<lparr>nodes := AList.update loc n (nodes s)\<rparr>"

definition remove_tree :: "location \<Rightarrow> fs \<Rightarrow> fs" where
  "remove_tree loc s = s\<lparr>nodes := filter (\<lambda>(l, n). \<not> prefix loc l) (nodes s)\<rparr>"

definition children :: "fs \<Rightarrow> location \<Rightarrow> Dirent list" where
  "children s loc =
     map (\<lambda>(l, n). Dirent (last l) n)
       (filter (\<lambda>(l, n). l \<noteq> [] \<and> butlast l = loc) (nodes s))"

fun entry_name :: "Dirent \<Rightarrow> jsstring" where
  "entry_name (Dirent name n) = name"

fun isDirectory :: "Dirent \<Rightarrow> bool" where
  "isDirectory (Dirent name n) = (n = Dir)"

fun isSymbolicLink :: "node \<Rightarrow> bool" where
  "isSymbolicLink (Link payload) = True"
| "isSymbolicLink _ = False"

text \<open>
  \<open>walk k s cur comps follow\<close> follows the segments \<open>comps\<close> from the directory at \<open>cur\<close>,
  with \<open>k\<close> symbolic links left to follow. It gives the location that the path names; the
  last segment may name nothing yet, and is itself followed only when \<open>follow\<close> is set.
\<close>

fun walk :: "nat \<Rightarrow> fs \<Rightarrow> location \<Rightarrow> jsstring list \<Rightarrow> bool \<Rightarrow> errno + location" where
  "walk k s cur [] follow = Inr cur"
| "walk k s cur (c # cs) follow =
     (if c = [] \<or> c = js ''.'' then walk k s cur cs follow
      else if c = js ''..'' then walk k s (butlast cur) cs follow
      else
        (case node_at s (cur @ [c]) of
           None \<Rightarrow> if cs = [] then Inr (cur @ [c]) else Inl ENOENT
         | Some Dir \<Rightarrow> walk k s (cur @ [c]) cs follow
         | Some (File content) \<Rightarrow> if cs = [] then Inr (cur @ [c]) else Inl ENOTDIR
         | Some (Link payload) \<Rightarrow>
             if cs = [] \<and> \<not> follow then Inr (cur @ [c])
             else
               (case k of
                  0 \<Rightarrow> Inl ELOOP
                | Suc k' \<Rightarrow>
                    walk k' s (if isAbsolute payload then [] else cur)
                      (split_slash payload @ cs) follow)))"

text \<open>Where a path starts: at the root, or at the working directory of the process.\<close>

definition start :: "env \<Rightarrow> jsstring \<Rightarrow> location" where
  "start e path =
     (if isAbsolute path then []
      else normalize_segments False (split_slash (process_cwd e)))"

text \<open>The working directory of the process is there as long as it is a directory of the state.\<close>

definition cwd_exists :: "env \<Rightarrow> fs \<Rightarrow> bool" where
  "cwd_exists e s \<longleftrightarrow> node_at s (start e []) = Some Dir"

definition locate :: "env \<Rightarrow> bool \<Rightarrow> jsstring \<Rightarrow> fs \<Rightarrow> errno + location" where
  "locate e follow path s =
     (if path = [] then Inl ENOENT
      else if length path > PATH_MAX then Inl ENAMETOOLONG
      else if \<not> isAbsolute path \<and> \<not> cwd_exists e s then Inl ENOENT
      else walk MAXSYMLINKS s (start e path) (split_slash path) follow)"

text \<open>The location and the node that a path names: \<open>lstat\<close> without, \<open>stat\<close> with \<open>follow\<close>.\<close>

definition stat_at :: "env \<Rightarrow> bool \<Rightarrow> jsstring \<Rightarrow> (location \<times> node) io" where
  "stat_at e follow path s =
     (case locate e follow path s of
        Inl err \<Rightarrow> Some (Inl err, s)
      | Inr loc \<Rightarrow>
          (case node_at s loc of
             None \<Rightarrow> Some (Inl ENOENT, s)
           | Some n \<Rightarrow> Some (Inr (loc, n), s)))"

definition lstat :: "env \<Rightarrow> jsstring \<Rightarrow> node io" where
  "lstat e path = bind (stat_at e False path) (\<lambda>(loc, n). return n)"

definition stat :: "env \<Rightarrow> jsstring \<Rightarrow> node io" where
  "stat e path = bind (stat_at e True path) (\<lambda>(loc, n). return n)"

definition readlink :: "env \<Rightarrow> jsstring \<Rightarrow> jsstring io" where
  "readlink e path =
     bind (lstat e path) (\<lambda>n.
       case n of Link payload \<Rightarrow> return payload | _ \<Rightarrow> throw EINVAL)"

definition readdir :: "env \<Rightarrow> jsstring \<Rightarrow> Dirent list io" where
  "readdir e path =
     bind (stat_at e True path) (\<lambda>(loc, n) s.
       case n of Dir \<Rightarrow> Some (Inr (children s loc), s) | _ \<Rightarrow> Some (Inl ENOTDIR, s))"

text \<open>
  \<open>mkdir(path, { recursive: true })\<close>: the directories that the path names and that are
  missing are created, one segment after the other; a segment that exists must be a
  directory, or a symbolic link to one. What was created before an error stays.
\<close>

fun make_dirs :: "fs \<Rightarrow> location \<Rightarrow> jsstring list \<Rightarrow> (errno + unit) \<times> fs" where
  "make_dirs s cur [] = (Inr (), s)"
| "make_dirs s cur (c # cs) =
     (if c = [] \<or> c = js ''.'' then make_dirs s cur cs
      else if c = js ''..'' then make_dirs s (butlast cur) cs
      else
        (case node_at s (cur @ [c]) of
           None \<Rightarrow> make_dirs (put_node (cur @ [c]) Dir s) (cur @ [c]) cs
         | Some Dir \<Rightarrow> make_dirs s (cur @ [c]) cs
         | Some (File content) \<Rightarrow> (Inl (if cs = [] then EEXIST else ENOTDIR), s)
         | Some (Link payload) \<Rightarrow>
             (case walk MAXSYMLINKS s cur [c] True of
                Inl err \<Rightarrow> (Inl err, s)
              | Inr loc \<Rightarrow>
                  (case node_at s loc of
                     Some Dir \<Rightarrow> make_dirs s loc cs
                   | None \<Rightarrow> (Inl ENOENT, s)
                   | Some n \<Rightarrow> (Inl (if cs = [] then EEXIST else ENOTDIR), s)))))"

definition make_path :: "env \<Rightarrow> jsstring \<Rightarrow> unit io" where
  "make_path e path s =
     (if path = [] then Some (Inl ENOENT, s)
      else if length path > PATH_MAX then Some (Inl ENAMETOOLONG, s)
      else if \<not> isAbsolute path \<and> \<not> cwd_exists e s then Some (Inl ENOENT, s)
      else Some (make_dirs s (start e path) (split_slash path)))"

definition mkdir :: "env \<Rightarrow> jsstring \<Rightarrow> unit io" where
  "mkdir e path = bind (log_call (Mkdir path)) (\<lambda>_. make_path e path)"

text \<open>\<open>unlink\<close> removes a file or a symbolic link, and refuses a directory.\<close>

definition unlink :: "env \<Rightarrow> jsstring \<Rightarrow> unit io" where
  "unlink e path =
     bind (stat_at e False path) (\<lambda>(loc, n) s.
       case n of
         Dir \<Rightarrow> Some (Inl EISDIR, s)
       | _ \<Rightarrow> Some (Inr (), remove_tree loc s))"

text \<open>
  \<open>rm(path)\<close> and \<open>rm(path, { recursive: true })\<close>, both without \<open>force\<close>: a path that names
  nothing is an error, and so is a directory without \<open>recursive\<close>.
\<close>

definition remove :: "env \<Rightarrow> jsstring \<Rightarrow> bool \<Rightarrow> unit io" where
  "remove e path recursive =
     bind (stat_at e False path) (\<lambda>(loc, n) s.
       case n of
         Dir \<Rightarrow>
           if \<not> recursive then Some (Inl EISDIR, s)
           else if loc = [] then Some (Inl EPERM, s)
           else Some (Inr (), remove_tree loc s)
       | _ \<Rightarrow> Some (Inr (), remove_tree loc s))"

definition rm :: "env \<Rightarrow> jsstring \<Rightarrow> bool \<Rightarrow> unit io" where
  "rm e path recursive = bind (log_call (Rm path recursive)) (\<lambda>_. remove e path recursive)"

text \<open>\<open>symlink(target, path)\<close>: the path must name nothing yet, in a directory that exists.\<close>

definition make_link :: "env \<Rightarrow> jsstring \<Rightarrow> jsstring \<Rightarrow> unit io" where
  "make_link e target path s =
     (if \<not> symlinks_permitted s then Some (Inl EPERM, s)
      else if target = [] then Some (Inl ENOENT, s)
      else
        (case locate e False path s of
           Inl err \<Rightarrow> Some (Inl err, s)
         | Inr loc \<Rightarrow>
             (case node_at s loc of
                None \<Rightarrow> Some (Inr (), put_node loc (Link target) s)
              | Some n \<Rightarrow> Some (Inl EEXIST, s))))"

definition symlink :: "env \<Rightarrow> jsstring \<Rightarrow> jsstring \<Rightarrow> string option \<Rightarrow> unit io" where
  "symlink e target path type = bind (log_call (Symlink target path)) (\<lambda>_. make_link e target path)"

text \<open>\<open>copyFile\<close>, once the content of the source is known: the destination is written through.\<close>

definition write_file :: "env \<Rightarrow> jsstring \<Rightarrow> jsstring \<Rightarrow> unit io" where
  "write_file e path content s =
     (case locate e True path s of
        Inl err \<Rightarrow> Some (Inl err, s)
      | Inr loc \<Rightarrow>
          (case node_at s loc of
             Some Dir \<Rightarrow> Some (Inl EISDIR, s)
           | _ \<Rightarrow> Some (Inr (), put_node loc (File content) s)))"

text \<open>
  \<open>cp(src, dest)\<close> with the options that \<open>copyDirectory\<close> leaves at their defaults:
  \<open>dereference\<close> and \<open>recursive\<close> are false and \<open>force\<close> is true. The source is looked at
  without following it. A file replaces a file or a symbolic link at the destination; a
  directory is refused; a symbolic link is created again at the destination, with the
  target of the source made absolute.
\<close>

definition isSrcSubdir :: "env \<Rightarrow> jsstring \<Rightarrow> jsstring \<Rightarrow> bool" where
  "isSrcSubdir e src dest \<longleftrightarrow> prefix (segments (resolve e [src])) (segments (resolve e [dest]))"

definition absolute_target :: "env \<Rightarrow> jsstring \<Rightarrow> jsstring \<Rightarrow> jsstring" where
  "absolute_target e path payload =
     (if isAbsolute payload then payload else resolve e [dirname path, payload])"

definition onLink :: "env \<Rightarrow> (location \<times> node) option \<Rightarrow> jsstring \<Rightarrow> jsstring \<Rightarrow> unit io" where
  "onLink e destStat src dest =
     bind (readlink e src) (\<lambda>payload.
       let resolvedSrc = absolute_target e src payload in
       case destStat of
         None \<Rightarrow> make_link e resolvedSrc dest
       | Some (destLoc, Link destPayload) \<Rightarrow>
           let resolvedDest = absolute_target e dest destPayload in
           if isSrcSubdir e resolvedSrc resolvedDest then throw EINVAL
           else
             bind (stat e src) (\<lambda>srcStat.
               if srcStat = Dir \<and> isSrcSubdir e resolvedDest resolvedSrc then throw EINVAL
               else bind (unlink e dest) (\<lambda>_. make_link e resolvedSrc dest))
       | Some (destLoc, n) \<Rightarrow> make_link e resolvedSrc dest)"

definition onFile :: "env \<Rightarrow> (location \<times> node) option \<Rightarrow> jsstring \<Rightarrow> jsstring \<Rightarrow> unit io" where
  "onFile e destStat content dest =
     (case destStat of
        None \<Rightarrow> write_file e dest content
      | Some d \<Rightarrow> bind (unlink e dest) (\<lambda>_. write_file e dest content))"

definition checkPaths :: "env \<Rightarrow> location \<times> node \<Rightarrow> (location \<times> node) option \<Rightarrow> jsstring \<Rightarrow> jsstring \<Rightarrow> unit io" where
  "checkPaths e srcStat destStat src dest =
     bind
       (case destStat of
          None \<Rightarrow> return ()
        | Some (destLoc, destNode) \<Rightarrow>
            if destLoc = fst srcStat then throw EINVAL
            else if snd srcStat = Dir \<and> destNode \<noteq> Dir then throw EISDIR
            else if snd srcStat \<noteq> Dir \<and> destNode = Dir then throw ENOTDIR
            else return ())
       (\<lambda>_. if snd srcStat = Dir \<and> isSrcSubdir e src dest then throw EINVAL else return ())"

definition checkParentDir :: "env \<Rightarrow> jsstring \<Rightarrow> unit io" where
  "checkParentDir e dest =
     bind (try_catch (bind (stat e (dirname dest)) (\<lambda>n. return True)) (\<lambda>err. return False))
       (\<lambda>dirExists. if dirExists then return () else make_path e (dirname dest))"

definition copy :: "env \<Rightarrow> jsstring \<Rightarrow> jsstring \<Rightarrow> unit io" where
  "copy e src dest =
     bind (stat_at e False src) (\<lambda>srcStat.
     bind (try_catch (bind (stat_at e False dest) (\<lambda>d. return (Some d)))
             (\<lambda>err. if err = ENOENT then return None else throw err)) (\<lambda>destStat.
     bind (checkPaths e srcStat destStat src dest) (\<lambda>_.
     bind (checkParentDir e dest) (\<lambda>_.
       case snd srcStat of
         Dir \<Rightarrow> throw EISDIR
       | File content \<Rightarrow> onFile e destStat content dest
       | Link payload \<Rightarrow> onLink e destStat src dest))))"

definition cp :: "env \<Rightarrow> jsstring \<Rightarrow> jsstring \<Rightarrow> unit io" where
  "cp e src dest = bind (log_call (Cp src dest)) (\<lambda>_. copy e src dest)"

text \<open>The message of an error; of the text that Node gives it, the code is kept.\<close>

fun message :: "errno \<Rightarrow> jsstring" where
  "message ENOENT = js ''ENOENT''"
| "message ENOTDIR = js ''ENOTDIR''"
| "message EEXIST = js ''EEXIST''"
| "message EISDIR = js ''EISDIR''"
| "message EINVAL = js ''EINVAL''"
| "message ELOOP = js ''ELOOP''"
| "message EPERM = js ''EPERM''"
| "message ENAMETOOLONG = js ''ENAMETOOLONG''"

section \<open>Calls that read the host\<close>

text \<open>
  \<open>process.cwd()\<close> throws when the working directory of the process is no longer there,
  and \<open>os.homedir()\<close> when the host knows no home directory for the user. \<open>resolve\<close> and
  \<open>relative\<close> call \<open>process.cwd()\<close> when they need it: \<open>resolve\<close> when none of its
  arguments is absolute, \<open>relative\<close> for each of its two paths unless they are equal.
\<close>

definition process_cwd_call :: "env \<Rightarrow> jsstring io" where
  "process_cwd_call e s =
     (if cwd_exists e s then Some (Inr (process_cwd e), s) else Some (Inl ENOENT, s))"

definition homedir_call :: "env \<Rightarrow> jsstring io" where
  "homedir_call e = (if no_homedir e then throw ENOENT else return (homedir e))"

definition resolve_call :: "env \<Rightarrow> jsstring list \<Rightarrow> jsstring io" where
  "resolve_call e args =
     (if snd (resolve_loop (rev args) []) then return (resolve e args)
      else bind (process_cwd_call e) (\<lambda>cwd. return (resolve e args)))"

definition relative_call :: "env \<Rightarrow> jsstring \<Rightarrow> jsstring \<Rightarrow> jsstring io" where
  "relative_call e from to =
     (if from = to then return []
      else
        bind (resolve_call e [from]) (\<lambda>resolvedFrom.
        bind (resolve_call e [to]) (\<lambda>resolvedTo.
          return (relative e from to))))"

text \<open>\<open>isPathSafe\<close> as it is called: with the two calls of \<open>resolve\<close>, in the order of the source.\<close>

definition isPathSafe_call :: "env \<Rightarrow> jsstring \<Rightarrow> jsstring \<Rightarrow> bool io" where
  "isPathSafe_call e basePath targetPath =
     bind (resolve_call e [basePath]) (\<lambda>resolvedBase.
     bind (resolve_call e [targetPath]) (\<lambda>resolvedTarget.
       let normalizedBase = normalize resolvedBase;
           normalizedTarget = normalize resolvedTarget
       in return (prefix (normalizedBase @ sep) normalizedTarget
                  \<or> normalizedTarget = normalizedBase)))"

section \<open>The installer\<close>

datatype AgentType =
    Amp | Antigravity | ClaudeCode | Moltbot | Cline | Codebuddy | Codex | CommandCode
  | Continue | Crush | Cursor | Droid | GeminiCli | GithubCopilot | Goose | Junie | Kilo
  | KimiCli | KiroCli | Kode | Mcpjam | Mux | Neovate | Opencode | Openhands | Pi | Qoder
  | QwenCode | Roo | Trae | Windsurf | Zencoder | Pochi

record Skill =
  name :: jsstring
  description :: jsstring
  path :: jsstring

record AgentConfig =
  displayName :: jsstring
  skillsDir :: jsstring
  globalSkillsDir :: jsstring

record InstallOptions =
  global :: "bool option"
  cwd :: "jsstring option"
  noSymlink :: "bool option"

record InstallResult =
  success :: bool
  path :: jsstring
  canonicalPath :: "jsstring option"
  symlinkFailed :: "bool option"
  error :: "jsstring option"

definition AGENTS_DIR :: jsstring where
  "AGENTS_DIR = js ''.agents''"

definition SKILLS_SUBDIR :: jsstring where
  "SKILLS_SUBDIR = js ''skills''"

text \<open>\<open>x || y\<close> on a string that may be undefined: the empty string is falsy too.\<close>

definition or_else :: "jsstring option \<Rightarrow> jsstring \<Rightarrow> jsstring" where
  "or_else x y = (case x of None \<Rightarrow> y | Some v \<Rightarrow> if v = [] then y else v)"

text \<open>The truth value of an optional boolean, and \<open>x ?? false\<close>, which is the same.\<close>

definition truthy :: "bool option \<Rightarrow> bool" where
  "truthy x = (case x of None \<Rightarrow> False | Some b \<Rightarrow> b)"

text \<open>\<open>x || f()\<close>, where the call is made only when \<open>x\<close> is falsy.\<close>

definition or_call :: "jsstring option \<Rightarrow> jsstring io \<Rightarrow> jsstring io" where
  "or_call x call = (case x of None \<Rightarrow> call | Some v \<Rightarrow> if v = [] then call else return v)"

definition getCanonicalSkillsDir :: "env \<Rightarrow> bool \<Rightarrow> jsstring option \<Rightarrow> jsstring io" where
  "getCanonicalSkillsDir e =
     (\<lambda>global cwd.
        bind (if global then homedir_call e else or_call cwd (process_cwd_call e))
          (\<lambda>baseDir. return (join [baseDir, AGENTS_DIR, SKILLS_SUBDIR])))"

text \<open>
  \<open>createSymlink\<close>. The inner \<open>try\<close> gives \<open>Some True\<close> where the source returns from the
  function, and \<open>None\<close> where it goes on after the block.
\<close>

definition createSymlink :: "env \<Rightarrow> jsstring \<Rightarrow> jsstring \<Rightarrow> bool io" where
  "createSymlink e target linkPath =
     try_catch
       (bind
          (try_catch
             (bind (lstat e linkPath) (\<lambda>stats.
                if isSymbolicLink stats then
                  bind (readlink e linkPath) (\<lambda>existingTarget.
                  bind (resolve_call e [existingTarget]) (\<lambda>resolvedExisting.
                  bind (resolve_call e [target]) (\<lambda>resolvedTarget.
                    if resolvedExisting = resolvedTarget then return (Some True)
                    else bind (rm e linkPath False) (\<lambda>_. return None))))
                else bind (rm e linkPath True) (\<lambda>_. return None)))
             (\<lambda>err. return None))
          (\<lambda>returned.
             case returned of
               Some b \<Rightarrow> return b
             | None \<Rightarrow>
                 let linkDir = join [linkPath, js ''..''] in
                 bind (mkdir e linkDir) (\<lambda>_.
                 bind (relative_call e linkDir target) (\<lambda>relativePath.
                   let symlinkType = (if platform e = js ''win32'' then Some ''junction'' else None)
                   in bind (symlink e relativePath linkPath symlinkType) (\<lambda>_. return True)))))
       (\<lambda>err. return False)"

definition EXCLUDE_FILES :: "jsstring set" where
  "EXCLUDE_FILES = {js ''README.md'', js ''metadata.json''}"

definition isExcluded :: "jsstring \<Rightarrow> bool" where
  "isExcluded nm =
     (if nm \<in> EXCLUDE_FILES then True
      else if prefix (js ''_'') nm then True
      else False)"

text \<open>
  \<open>copyDirectory\<close>, with the depth that the recursion may still reach: beyond it the
  computation has not returned. \<open>copyEntries\<close> is the loop over the entries read.
\<close>

fun copyDirectory :: "nat \<Rightarrow> env \<Rightarrow> jsstring \<Rightarrow> jsstring \<Rightarrow> unit io"
  and copyEntries :: "nat \<Rightarrow> env \<Rightarrow> jsstring \<Rightarrow> jsstring \<Rightarrow> Dirent list \<Rightarrow> unit io" where
  "copyDirectory 0 e src dest = (\<lambda>s. None)"
| "copyDirectory (Suc depth) e src dest =
     bind (mkdir e dest) (\<lambda>_.
     bind (readdir e src) (\<lambda>entries.
       copyEntries depth e src dest entries))"
| "copyEntries depth e src dest [] = return ()"
| "copyEntries depth e src dest (entry # entries) =
     (if isExcluded (entry_name entry) then copyEntries depth e src dest entries
      else
        let srcPath = join [src, entry_name entry];
            destPath = join [dest, entry_name entry]
        in bind
             (if isDirectory entry then copyDirectory depth e srcPath destPath
              else cp e srcPath destPath)
             (\<lambda>_. copyEntries depth e src dest entries))"

definition traversal_detected :: jsstring where
  "traversal_detected = js ''Invalid skill name: potential path traversal detected''"

text \<open>
  \<open>installSkillForAgent\<close>. The paths are computed and checked before the \<open>try\<close>: what
  \<open>process.cwd()\<close>, \<open>homedir()\<close> and \<open>resolve\<close> throw there is thrown to the caller.
\<close>

definition installSkillForAgent ::
  "nat \<Rightarrow> env \<Rightarrow> (AgentType \<Rightarrow> AgentConfig) \<Rightarrow> Skill \<Rightarrow> AgentType \<Rightarrow> InstallOptions
     \<Rightarrow> InstallResult io" where
  "installSkillForAgent depth e agents skill agentType options =
     (let agent = agents agentType;
          isGlobal = truthy (global options)
      in
        bind (or_call (cwd options) (process_cwd_call e)) (\<lambda>cwd.
          let rawSkillName =
                (if name skill \<noteq> [] then name skill else basename (Skill.path skill));
              skillName = sanitizeName rawSkillName
          in
            bind (getCanonicalSkillsDir e isGlobal (Some cwd)) (\<lambda>canonicalBase.
              let canonicalDir = join [canonicalBase, skillName];
                  agentBase =
                    (if isGlobal then globalSkillsDir agent else join [cwd, skillsDir agent]);
                  agentDir = join [agentBase, skillName]
              in
                bind (isPathSafe_call e canonicalBase canonicalDir) (\<lambda>safe.
                  if \<not> safe then
                    return \<lparr>success = False, path = agentDir, canonicalPath = None,
                      symlinkFailed = None, error = Some traversal_detected\<rparr>
                  else
                    bind (isPathSafe_call e agentBase agentDir) (\<lambda>safe.
                      if \<not> safe then
                        return \<lparr>success = False, path = agentDir, canonicalPath = None,
                          symlinkFailed = None, error = Some traversal_detected\<rparr>
                      else
                        try_catch
                          (bind (mkdir e canonicalDir) (\<lambda>_.
                           bind (copyDirectory depth e (Skill.path skill) canonicalDir) (\<lambda>_.
                             if truthy (noSymlink options) then
                               bind (mkdir e agentDir) (\<lambda>_.
                               bind (copyDirectory depth e (Skill.path skill) agentDir) (\<lambda>_.
                                 return \<lparr>success = True, path = agentDir,
                                   canonicalPath = Some canonicalDir, symlinkFailed = None,
                                   error = None\<rparr>))
                             else
                               bind (createSymlink e canonicalDir agentDir) (\<lambda>symlinkCreated.
                                 if \<not> symlinkCreated then
                                   bind (mkdir e agentDir) (\<lambda>_.
                                   bind (copyDirectory depth e (Skill.path skill) agentDir) (\<lambda>_.
                                     return \<lparr>success = True, path = agentDir,
                                       canonicalPath = Some canonicalDir,
                                       symlinkFailed = Some True, error = None\<rparr>))
                                 else
                                   return \<lparr>success = True, path = agentDir,
                                     canonicalPath = Some canonicalDir, symlinkFailed = None,
                                     error = None\<rparr>))))
                          (\<lambda>err. return \<lparr>success = False, path = agentDir,
                             canonicalPath = None, symlinkFailed = None,
                             error = Some (message err)\<rparr>))))))"

text \<open>
  \<open>getInstallPath\<close> throws where the path is not safe: \<open>Inl\<close> is the message thrown. It is
  given here for a host where \<open>process.cwd()\<close> returns: it makes no call of it that
  \<open>installSkillForAgent\<close> has not made for the same agent and options.
\<close>

definition getInstallPath ::
  "env \<Rightarrow> (AgentType \<Rightarrow> AgentConfig) \<Rightarrow> jsstring \<Rightarrow> AgentType \<Rightarrow> InstallOptions
     \<Rightarrow> jsstring + jsstring" where
  "getInstallPath e agents skillName agentType options =
     (let agent = agents agentType;
          cwd = or_else (cwd options) (process_cwd e);
          sanitized = sanitizeName skillName;
          targetBase = (if truthy (global options) then globalSkillsDir agent
                        else join [cwd, skillsDir agent]);
          installPath = join [targetBase, sanitized]
      in if \<not> isPathSafe e targetBase installPath then Inl traversal_detected
         else Inr installPath)"

text \<open>
  Modelled from the spec: the registry of agents (\<open>agents.ts\<close>) is not among the sources.
  The functions above take it as a parameter. The examples use the two entries that the
  tests tell of: \<open>amp\<close> reads its skills from \<open>.agents/skills\<close>, the canonical directory
  itself, and \<open>claude-code\<close> from \<open>.claude/skills\<close>; every other agent is given the
  directories of \<open>claude-code\<close>.
\<close>

definition example_agents :: "AgentType \<Rightarrow> AgentConfig" where
  "example_agents a =
     (if a = Amp then
        \<lparr>displayName = js ''Amp'', skillsDir = js ''.agents/skills'',
         globalSkillsDir = js ''/home/u/.config/agents/skills''\<rparr>
      else
        \<lparr>displayName = js ''Claude Code'', skillsDir = js ''.claude/skills'',
         globalSkillsDir = js ''/home/u/.claude/skills''\<rparr>)"

section \<open>Example states\<close>

text \<open>
  A project directory \<open>/proj\<close> and a fetched skill in \<open>/src/skill\<close>: with a manifest only;
  with a symbolic link to a sibling directory; with a symbolic link to nothing; with the
  administrative files; and with an entry that is a directory.
\<close>

definition state_of :: "(string list \<times> node) list \<Rightarrow> fs" where
  "state_of ns = \<lparr>nodes = map (\<lambda>(l, n). (map js l, n)) ns, calls = [], symlinks_permitted = True\<rparr>"

definition plain_source :: fs where
  "plain_source = state_of
     [([''proj''], Dir), ([''src''], Dir), ([''src'', ''skill''], Dir),
      ([''src'', ''skill'', ''SKILL.md''], File (js ''name: demo''))]"

definition linked_source :: fs where
  "linked_source = state_of
     [([''proj''], Dir), ([''src''], Dir), ([''src'', ''skill''], Dir),
      ([''src'', ''skill'', ''SKILL.md''], File (js ''name: demo'')),
      ([''src'', ''skill'', ''data''], Link (js ''../shared-data'')),
      ([''src'', ''shared-data''], Dir),
      ([''src'', ''shared-data'', ''info.txt''], File (js ''hello''))]"

definition broken_source :: fs where
  "broken_source = state_of
     [([''proj''], Dir), ([''src''], Dir), ([''src'', ''skill''], Dir),
      ([''src'', ''skill'', ''SKILL.md''], File (js ''name: demo'')),
      ([''src'', ''skill'', ''broken''], Link (js ''../non-existent-dir''))]"

definition admin_source :: fs where
  "admin_source = state_of
     [([''proj''], Dir), ([''src''], Dir), ([''src'', ''skill''], Dir),
      ([''src'', ''skill'', ''SKILL.md''], File (js ''name: demo'')),
      ([''src'', ''skill'', ''README.md''], File (js ''read me'')),
      ([''src'', ''skill'', ''metadata.json''], File (js ''{}'')),
      ([''src'', ''skill'', ''_internal.json''], File (js ''{}'')),
      ([''src'', ''skill'', ''docs''], Dir),
      ([''src'', ''skill'', ''docs'', ''guide.md''], File (js ''guide''))]"

text \<open>The project after an earlier install had copied \<open>README.md\<close> into the canonical directory.\<close>

definition stale_install :: fs where
  "stale_install = state_of
     [([''proj''], Dir), ([''src''], Dir), ([''src'', ''skill''], Dir),
      ([''src'', ''skill'', ''SKILL.md''], File (js ''name: demo'')),
      ([''src'', ''skill'', ''README.md''], File (js ''read me'')),
      ([''proj'', ''.agents''], Dir), ([''proj'', ''.agents'', ''skills''], Dir),
      ([''proj'', ''.agents'', ''skills'', ''demo''], Dir),
      ([''proj'', ''.agents'', ''skills'', ''demo'', ''README.md''], File (js ''old''))]"

definition skill_named :: "string \<Rightarrow> Skill" where
  "skill_named n = \<lparr>name = js n, description = js ''test'', path = js ''/src/skill''\<rparr>"

definition project_options :: InstallOptions where
  "project_options = \<lparr>global = Some False, cwd = Some (js ''/proj''), noSymlink = None\<rparr>"

text \<open>A state with nodes and calls added at the end of those of another.\<close>

definition after :: "fs \<Rightarrow> (string list \<times> node) list \<Rightarrow> call list \<Rightarrow> fs" where
  "after s ns cs = s\<lparr>nodes := nodes s @ nodes (state_of ns), calls := calls s @ cs\<rparr>"

text \<open>\<open>plain_source\<close> after the skill \<open>demo\<close> was installed for \<open>claude-code\<close>.\<close>

definition installed_once :: fs where
  "installed_once = after plain_source
     [([''proj'', ''.agents''], Dir), ([''proj'', ''.agents'', ''skills''], Dir),
      ([''proj'', ''.agents'', ''skills'', ''demo''], Dir),
      ([''proj'', ''.agents'', ''skills'', ''demo'', ''SKILL.md''], File (js ''name: demo'')),
      ([''proj'', ''.claude''], Dir), ([''proj'', ''.claude'', ''skills''], Dir),
      ([''proj'', ''.claude'', ''skills'', ''demo''], Link (js ''../../.agents/skills/demo''))]
     [Mkdir (js ''/proj/.agents/skills/demo''), Mkdir (js ''/proj/.agents/skills/demo''),
      Cp (js ''/src/skill/SKILL.md'') (js ''/proj/.agents/skills/demo/SKILL.md''),
      Mkdir (js ''/proj/.claude/skills''),
      Symlink (js ''../../.agents/skills/demo'') (js ''/proj/.claude/skills/demo'')]"

text \<open>\<open>plain_source\<close> after the skill \<open>self-loop-skill\<close> was installed for \<open>amp\<close>.\<close>

definition self_loop_state :: fs where
  "self_loop_state = after plain_source
     [([''proj'', ''.agents''], Dir), ([''proj'', ''.agents'', ''skills''], Dir),
      ([''proj'', ''.agents'', ''skills'', ''self-loop-skill''], Link (js ''self-loop-skill''))]
     [Mkdir (js ''/proj/.agents/skills/self-loop-skill''),
      Mkdir (js ''/proj/.agents/skills/self-loop-skill''),
      Cp (js ''/src/skill/SKILL.md'') (js ''/proj/.agents/skills/self-loop-skill/SKILL.md''),
      Rm (js ''/proj/.agents/skills/self-loop-skill'') True,
      Mkdir (js ''/proj/.agents/skills''),
      Symlink (js ''self-loop-skill'') (js ''/proj/.agents/skills/self-loop-skill'')]"

text \<open>The result of an install that succeeded, and of one that an error ended.\<close>

definition installed :: "jsstring \<Rightarrow> jsstring \<Rightarrow> bool option \<Rightarrow> InstallResult" where
  "installed agentDir canonicalDir failed =
     \<lparr>success = True, path = agentDir, canonicalPath = Some canonicalDir,
      symlinkFailed = failed, error = None\<rparr>"

definition failed_with :: "jsstring \<Rightarrow> jsstring \<Rightarrow> InstallResult" where
  "failed_with agentDir msg =
     \<lparr>success = False, path = agentDir, canonicalPath = None, symlinkFailed = None,
      error = Some msg\<rparr>"

text \<open>The names that \<open>installSkillForAgent\<close> gives to the paths it computes.\<close>

definition install_skillName :: "Skill \<Rightarrow> jsstring" where
  "install_skillName skill =
     sanitizeName (if name skill \<noteq> [] then name skill else basename (Skill.path skill))"

definition install_canonicalBase :: "env \<Rightarrow> InstallOptions \<Rightarrow> jsstring" where
  "install_canonicalBase e options =
     join [if truthy (global options) then homedir e
           else or_else (cwd options) (process_cwd e),
           AGENTS_DIR, SKILLS_SUBDIR]"

definition install_canonicalDir :: "env \<Rightarrow> Skill \<Rightarrow> InstallOptions \<Rightarrow> jsstring" where
  "install_canonicalDir e skill options =
     join [install_canonicalBase e options, install_skillName skill]"

definition install_agentBase :: "env \<Rightarrow> AgentConfig \<Rightarrow> InstallOptions \<Rightarrow> jsstring" where
  "install_agentBase e agent options =
     (if truthy (global options) then globalSkillsDir agent
      else join [or_else (cwd options) (process_cwd e), skillsDir agent])"

definition install_agentDir :: "env \<Rightarrow> AgentConfig \<Rightarrow> Skill \<Rightarrow> InstallOptions \<Rightarrow> jsstring" where
  "install_agentDir e agent skill options =
     join [install_agentBase e agent options, install_skillName skill]"

section \<open>Segments of a path\<close>

text \<open>
  Notions for the proofs about paths: a regular segment is a name (not empty, not \<open>.\<close> or
  \<open>..\<close>, without \<open>/\<close>), and \<open>resolved_segments\<close> are the segments of \<open>resolve\<close>'s result.
\<close>

definition slash_free :: "jsstring \<Rightarrow> bool" where
  "slash_free s \<longleftrightarrow> CHAR_FORWARD_SLASH \<notin> set s"

definition regular :: "jsstring \<Rightarrow> bool" where
  "regular s \<longleftrightarrow> s \<noteq> [] \<and> s \<noteq> js ''.'' \<and> s \<noteq> js ''..'' \<and> slash_free s"

definition resolved_segments :: "env \<Rightarrow> jsstring \<Rightarrow> jsstring list" where
  "resolved_segments e p =
     normalize_segments False
       (if isAbsolute p then split_slash p else split_slash (process_cwd e) @ split_slash p)"

definition dotdot_or_regular :: "jsstring \<Rightarrow> bool" where
  "dotdot_or_regular s \<longleftrightarrow> s = js ''..'' \<or> regular s"

section \<open>The steps of an install\<close>

text \<open>
  Names for the parts of the body of \<open>installSkillForAgent\<close>, for the statements below:
  \<open>copy_into\<close> is \<open>mkdir\<close> followed by \<open>copyDirectory\<close>, and \<open>install_body\<close> is the block
  under \<open>try\<close>. That \<open>installSkillForAgent\<close> is made of them is proved, not assumed.
\<close>

definition copy_into ::
  "nat \<Rightarrow> env \<Rightarrow> jsstring \<Rightarrow> jsstring \<Rightarrow> unit io" where
  "copy_into depth e src dir = bind (mkdir e dir) (\<lambda>_. copyDirectory depth e src dir)"

definition install_body ::
  "nat \<Rightarrow> env \<Rightarrow> jsstring \<Rightarrow> jsstring \<Rightarrow> jsstring \<Rightarrow> bool \<Rightarrow> InstallResult io" where
  "install_body depth e src canonicalDir agentDir copyOnly =
     bind (copy_into depth e src canonicalDir) (\<lambda>_.
       if copyOnly then
         bind (copy_into depth e src agentDir) (\<lambda>_.
           return (installed agentDir canonicalDir None))
       else
         bind (createSymlink e canonicalDir agentDir) (\<lambda>symlinkCreated.
           if \<not> symlinkCreated then
             bind (copy_into depth e src agentDir) (\<lambda>_.
               return (installed agentDir canonicalDir (Some True)))
           else return (installed agentDir canonicalDir None)))"

text \<open>
  \<open>install_checked\<close> is \<open>installSkillForAgent\<close> from the point where \<open>process.cwd()\<close>,
  \<open>homedir()\<close> and \<open>resolve\<close> have returned: the two checks of the paths and the \<open>try\<close>.
  \<open>yields e v m\<close> says of a call \<open>m\<close> that it changes nothing and either returns \<open>v\<close> or
  throws \<open>ENOENT\<close>, and that it returns where the working directory is there and the home
  directory known; \<open>guarded e m n\<close> that \<open>m\<close> is \<open>n\<close> after such calls.
\<close>

definition install_checked ::
  "nat \<Rightarrow> env \<Rightarrow> (AgentType \<Rightarrow> AgentConfig) \<Rightarrow> Skill \<Rightarrow> AgentType \<Rightarrow> InstallOptions
     \<Rightarrow> InstallResult io" where
  "install_checked depth e agents skill agentType options =
     (if \<not> isPathSafe e (install_canonicalBase e options) (install_canonicalDir e skill options)
      then return (failed_with (install_agentDir e (agents agentType) skill options)
             traversal_detected)
      else if \<not> isPathSafe e (install_agentBase e (agents agentType) options)
                (install_agentDir e (agents agentType) skill options)
      then return (failed_with (install_agentDir e (agents agentType) skill options)
             traversal_detected)
      else try_catch
             (install_body depth e (Skill.path skill) (install_canonicalDir e skill options)
                (install_agentDir e (agents agentType) skill options)
                (truthy (noSymlink options)))
             (\<lambda>err. return (failed_with (install_agentDir e (agents agentType) skill options)
                (message err))))"

definition host_ready :: "env \<Rightarrow> fs \<Rightarrow> bool" where
  "host_ready e s \<longleftrightarrow> cwd_exists e s \<and> \<not> no_homedir e"

definition yields :: "env \<Rightarrow> 'a \<Rightarrow> 'a io \<Rightarrow> bool" where
  "yields e v m \<longleftrightarrow>
     (\<forall>s. if host_ready e s then m s = Some (Inr v, s)
          else m s = Some (Inr v, s) \<or> m s = Some (Inl ENOENT, s))"

definition guarded :: "env \<Rightarrow> 'a io \<Rightarrow> 'a io \<Rightarrow> bool" where
  "guarded e m n \<longleftrightarrow>
     (\<forall>s. if host_ready e s then m s = n s
          else m s = n s \<or> m s = Some (Inl ENOENT, s))"

text \<open>
  A host that refuses symbolic links, and the states that an install goes through there;
  a project with no source to copy from.
\<close>

definition unlinkable_source :: fs where
  "unlinkable_source = plain_source\<lparr>symlinks_permitted := False\<rparr>"

definition canonical_copied :: fs where
  "canonical_copied = after unlinkable_source
     [([''proj'', ''.agents''], Dir), ([''proj'', ''.agents'', ''skills''], Dir),
      ([''proj'', ''.agents'', ''skills'', ''demo''], Dir),
      ([''proj'', ''.agents'', ''skills'', ''demo'', ''SKILL.md''], File (js ''name: demo''))]
     [Mkdir (js ''/proj/.agents/skills/demo''), Mkdir (js ''/proj/.agents/skills/demo''),
      Cp (js ''/src/skill/SKILL.md'') (js ''/proj/.agents/skills/demo/SKILL.md'')]"

definition link_refused :: fs where
  "link_refused = after canonical_copied
     [([''proj'', ''.claude''], Dir), ([''proj'', ''.claude'', ''skills''], Dir)]
     [Mkdir (js ''/proj/.claude/skills''),
      Symlink (js ''../../.agents/skills/demo'') (js ''/proj/.claude/skills/demo'')]"

definition agent_copied :: fs where
  "agent_copied = after link_refused
     [([''proj'', ''.claude'', ''skills'', ''demo''], Dir),
      ([''proj'', ''.claude'', ''skills'', ''demo'', ''SKILL.md''], File (js ''name: demo''))]
     [Mkdir (js ''/proj/.claude/skills/demo''), Mkdir (js ''/proj/.claude/skills/demo''),
      Cp (js ''/src/skill/SKILL.md'') (js ''/proj/.claude/skills/demo/SKILL.md'')]"

definition no_source :: fs where
  "no_source = state_of [([''proj''], Dir)]"

definition no_source_failed :: fs where
  "no_source_failed = after no_source
     [([''proj'', ''.agents''], Dir), ([''proj'', ''.agents'', ''skills''], Dir),
      ([''proj'', ''.agents'', ''skills'', ''demo''], Dir)]
     [Mkdir (js ''/proj/.agents/skills/demo''), Mkdir (js ''/proj/.agents/skills/demo'')]"


text \<open>A host whose working directory has been removed: the project is not there.\<close>

definition no_project :: fs where
  "no_project = state_of [([''src''], Dir), ([''src'', ''skill''], Dir),
     ([''src'', ''skill'', ''SKILL.md''], File (js ''name: demo''))]"

definition default_options :: InstallOptions where
  "default_options = \<lparr>global = None, cwd = None, noSymlink = None\<rparr>"

text \<open>
  The states after an install of a skill named \<open>../../etc\<close>, of the skill with the
  administrative files, and of \<open>demo\<close> over the earlier install.
\<close>

definition etc_installed :: fs where
  "etc_installed = after plain_source
     [([''proj'', ''.agents''], Dir), ([''proj'', ''.agents'', ''skills''], Dir),
      ([''proj'', ''.agents'', ''skills'', ''etc''], Dir),
      ([''proj'', ''.agents'', ''skills'', ''etc'', ''SKILL.md''], File (js ''name: demo'')),
      ([''proj'', ''.claude''], Dir), ([''proj'', ''.claude'', ''skills''], Dir),
      ([''proj'', ''.claude'', ''skills'', ''etc''], Link (js ''../../.agents/skills/etc''))]
     [Mkdir (js ''/proj/.agents/skills/etc''), Mkdir (js ''/proj/.agents/skills/etc''),
      Cp (js ''/src/skill/SKILL.md'') (js ''/proj/.agents/skills/etc/SKILL.md''),
      Mkdir (js ''/proj/.claude/skills''),
      Symlink (js ''../../.agents/skills/etc'') (js ''/proj/.claude/skills/etc'')]"

definition admin_calls :: "call list" where
  "admin_calls =
     [Mkdir (js ''/proj/.agents/skills/demo''), Mkdir (js ''/proj/.agents/skills/demo''),
      Cp (js ''/src/skill/SKILL.md'') (js ''/proj/.agents/skills/demo/SKILL.md''),
      Mkdir (js ''/proj/.agents/skills/demo/docs''),
      Cp (js ''/src/skill/docs/guide.md'') (js ''/proj/.agents/skills/demo/docs/guide.md''),
      Mkdir (js ''/proj/.claude/skills''),
      Symlink (js ''../../.agents/skills/demo'') (js ''/proj/.claude/skills/demo'')]"

definition admin_installed :: fs where
  "admin_installed = after admin_source
     [([''proj'', ''.agents''], Dir), ([''proj'', ''.agents'', ''skills''], Dir),
      ([''proj'', ''.agents'', ''skills'', ''demo''], Dir),
      ([''proj'', ''.agents'', ''skills'', ''demo'', ''SKILL.md''], File (js ''name: demo'')),
      ([''proj'', ''.agents'', ''skills'', ''demo'', ''docs''], Dir),
      ([''proj'', ''.agents'', ''skills'', ''demo'', ''docs'', ''guide.md''],
       File (js ''guide'')),
      ([''proj'', ''.claude''], Dir), ([''proj'', ''.claude'', ''skills''], Dir),
      ([''proj'', ''.claude'', ''skills'', ''demo''], Link (js ''../../.agents/skills/demo''))]
     admin_calls"

definition stale_reinstalled :: fs where
  "stale_reinstalled = after stale_install
     [([''proj'', ''.agents'', ''skills'', ''demo'', ''SKILL.md''], File (js ''name: demo'')),
      ([''proj'', ''.claude''], Dir), ([''proj'', ''.claude'', ''skills''], Dir),
      ([''proj'', ''.claude'', ''skills'', ''demo''], Link (js ''../../.agents/skills/demo''))]
     [Mkdir (js ''/proj/.agents/skills/demo''), Mkdir (js ''/proj/.agents/skills/demo''),
      Cp (js ''/src/skill/SKILL.md'') (js ''/proj/.agents/skills/demo/SKILL.md''),
      Mkdir (js ''/proj/.claude/skills''),
      Symlink (js ''../../.agents/skills/demo'') (js ''/proj/.claude/skills/demo'')]"

section \<open>The calls an install makes\<close>

text \<open>
  Every call of \<open>mkdir\<close>, \<open>cp\<close>, \<open>rm\<close> and \<open>symlink\<close> is recorded in the state, with the
  path it was given. \<open>call_target\<close> is the path a call writes to; \<open>only_calls Q m\<close> says that the
  calls \<open>m\<close> adds to the record all satisfy \<open>Q\<close>, in a state whose names are regular
  (\<open>wf_fs\<close>: no node is named \<open>.\<close>, \<open>..\<close>, the empty name or a name with a \<open>/\<close>), and that
  it leaves such a state. \<open>writes_below e dir c\<close> says that the path of \<open>c\<close> is \<open>dir\<close> or goes
  down from it through names that are not excluded.
\<close>

definition regular_location :: "location \<Rightarrow> bool" where
  "regular_location loc \<longleftrightarrow> (\<forall>c \<in> set loc. regular c)"

definition wf_fs :: "fs \<Rightarrow> bool" where
  "wf_fs s \<longleftrightarrow> (\<forall>(l, n) \<in> set (nodes s). regular_location l)"

fun call_target :: "call \<Rightarrow> jsstring" where
  "call_target (Mkdir p) = p"
| "call_target (Cp src dest) = dest"
| "call_target (Rm p recursive) = p"
| "call_target (Symlink payload p) = p"

definition only_calls :: "(call \<Rightarrow> bool) \<Rightarrow> 'a io \<Rightarrow> bool" where
  "only_calls Q m \<longleftrightarrow>
     (\<forall>s x s'. wf_fs s \<longrightarrow> m s = Some (x, s') \<longrightarrow>
        wf_fs s' \<and> (\<exists>cs. calls s' = calls s @ cs \<and> (\<forall>c \<in> set cs. Q c)))"

abbreviation silent :: "'a io \<Rightarrow> bool" where
  "silent m \<equiv> only_calls (\<lambda>c. False) m"

definition writes_below :: "env \<Rightarrow> jsstring \<Rightarrow> call \<Rightarrow> bool" where
  "writes_below e dir c \<longleftrightarrow>
     (\<exists>ns. resolved_segments e (call_target c) = resolved_segments e dir @ ns
        \<and> (\<forall>n \<in> set ns. regular n \<and> \<not> isExcluded n))"

definition install_call :: "env \<Rightarrow> jsstring \<Rightarrow> jsstring \<Rightarrow> call \<Rightarrow> bool" where
  "install_call e canonicalDir agentDir c \<longleftrightarrow>
     writes_below e canonicalDir c \<or> writes_below e agentDir c
     \<or> c = Mkdir (join [agentDir, js ''..''])"

section \<open>Properties of sanitizeName\<close>

lemma sanitizeName_stripped:
  "sanitizeName nm =
     (if stripped_name nm = [] then js ''unnamed-skill''
      else take 255 (stripped_name nm))"
  by (simp add: sanitizeName_def stripped_name_def Let_def js_def)

lemma fallback_plain:
  "c \<in> set (js ''unnamed-skill'') \<Longrightarrow> \<not> path_char c \<and> \<not> dot_or_space c"
  by (auto simp: js_def path_char_def dot_or_space_def js_whitespace_def)

lemma stripped_name_set:
  "set (stripped_name nm) \<subseteq> {c \<in> set nm. \<not> path_char c}"
proof -
  have "set (stripped_name nm) \<subseteq> set (trim_dots_spaces (remove_path_chars nm))"
    by (simp add: stripped_name_def remove_leading_dots_def set_dropWhileD subsetI)
  also have "\<dots> \<subseteq> set (dropWhile dot_or_space (remove_path_chars nm))"
    unfolding trim_dots_spaces_def
    by (metis set_dropWhileD set_rev subsetI)
  also have "\<dots> \<subseteq> set (remove_path_chars nm)"
    by (simp add: set_dropWhileD subsetI)
  also have "\<dots> = {c \<in> set nm. \<not> path_char c}"
    by (simp add: remove_path_chars_def)
  finally show ?thesis .
qed

lemma trim_dots_spaces_hd:
  "trim_dots_spaces s \<noteq> [] \<Longrightarrow> \<not> dot_or_space (hd (trim_dots_spaces s))"
proof -
  assume ne: "trim_dots_spaces s \<noteq> []"
  define t where "t = dropWhile dot_or_space s"
  have tne: "t \<noteq> []"
    using ne by (cases "dropWhile dot_or_space s = []") (simp_all add: trim_dots_spaces_def t_def)
  then have h: "\<not> dot_or_space (hd t)"
    unfolding t_def by (rule hd_dropWhile)
  obtain x xs where t: "t = x # xs"
    using tne by (cases t) auto
  have "trim_dots_spaces s = rev (dropWhile dot_or_space (rev xs @ [x]))"
    by (simp add: trim_dots_spaces_def t_def [symmetric] t)
  also have "\<dots> = rev (dropWhile dot_or_space (rev xs) @ [x])"
    using h t by (simp add: dropWhile_append)
  finally show ?thesis
    using h by (simp add: t)
qed

lemma trim_dots_spaces_last:
  "trim_dots_spaces s \<noteq> [] \<Longrightarrow> \<not> dot_or_space (last (trim_dots_spaces s))"
proof -
  assume ne: "trim_dots_spaces s \<noteq> []"
  define u where "u = dropWhile dot_or_space (rev (dropWhile dot_or_space s))"
  have une: "u \<noteq> []"
    using ne by (simp add: trim_dots_spaces_def u_def)
  then have "\<not> dot_or_space (hd u)"
    unfolding u_def by (rule hd_dropWhile)
  then show ?thesis
    using une by (simp add: trim_dots_spaces_def u_def [symmetric] last_rev)
qed

lemma remove_leading_dots_trim:
  "remove_leading_dots (trim_dots_spaces s) = trim_dots_spaces s"
proof (cases "trim_dots_spaces s")
  case Nil
  then show ?thesis by (simp add: remove_leading_dots_def)
next
  case (Cons x xs)
  then have "\<not> dot_or_space x"
    using trim_dots_spaces_hd [of s] by simp
  then show ?thesis
    using Cons by (simp add: remove_leading_dots_def dot_or_space_def)
qed

lemma stripped_name_trim:
  "stripped_name nm = trim_dots_spaces (remove_path_chars nm)"
  by (simp add: stripped_name_def remove_leading_dots_trim)

lemma sanitizeName_nonempty: "sanitizeName nm \<noteq> []"
  by (simp add: sanitizeName_stripped js_def)

lemma sanitizeName_length: "length (sanitizeName nm) \<le> 255"
  by (simp add: sanitizeName_stripped js_def)

lemma sanitizeName_no_path_char: "c \<in> set (sanitizeName nm) \<Longrightarrow> \<not> path_char c"
proof (cases "stripped_name nm = []")
  case True
  assume "c \<in> set (sanitizeName nm)"
  then show ?thesis
    using True fallback_plain [of c] by (simp add: sanitizeName_stripped)
next
  case False
  assume "c \<in> set (sanitizeName nm)"
  then have "c \<in> set (stripped_name nm)"
    using False by (auto simp: sanitizeName_stripped dest: in_set_takeD)
  then show ?thesis
    using stripped_name_set [of nm] by auto
qed

lemma sanitizeName_hd: "\<not> dot_or_space (hd (sanitizeName nm))"
proof (cases "stripped_name nm = []")
  case True
  then show ?thesis
    by (simp add: sanitizeName_stripped js_def dot_or_space_def js_whitespace_def)
next
  case False
  then have "\<not> dot_or_space (hd (stripped_name nm))"
    using trim_dots_spaces_hd [of "remove_path_chars nm"]
    by (simp add: stripped_name_trim)
  then show ?thesis
    using False by (simp add: sanitizeName_stripped)
qed

lemma sanitizeName_last:
  assumes "length (stripped_name nm) \<le> 255"
  shows "\<not> dot_or_space (last (sanitizeName nm))"
proof (cases "stripped_name nm = []")
  case True
  then show ?thesis
    by (simp add: sanitizeName_stripped js_def dot_or_space_def js_whitespace_def)
next
  case False
  then have "\<not> dot_or_space (last (stripped_name nm))"
    using trim_dots_spaces_last [of "remove_path_chars nm"]
    by (simp add: stripped_name_trim)
  then show ?thesis
    using False assms by (simp add: sanitizeName_stripped)
qed

lemma stripped_name_length: "length (stripped_name nm) \<le> length nm"
proof -
  have "length (stripped_name nm) \<le> length (dropWhile dot_or_space (remove_path_chars nm))"
    unfolding stripped_name_trim trim_dots_spaces_def
    by (metis length_dropWhile_le length_rev)
  also have "\<dots> \<le> length (remove_path_chars nm)"
    by (rule length_dropWhile_le)
  also have "\<dots> \<le> length nm"
    by (simp add: remove_path_chars_def)
  finally show ?thesis .
qed

lemma sanitizeName_untruncated:
  "length (sanitizeName nm) < 255 \<Longrightarrow> length (stripped_name nm) \<le> 255"
  by (auto simp: sanitizeName_stripped split: if_splits)

section \<open>Properties of the path functions\<close>

lemma split_slash_nonempty: "split_slash p \<noteq> []"
  by (induction p) (auto split: list.splits)

lemma split_slash_append:
  "split_slash (a @ CHAR_FORWARD_SLASH # b) = split_slash a @ split_slash b"
  by (induction a) (auto split: list.splits simp: split_slash_nonempty)

lemma split_slash_free: "slash_free s \<Longrightarrow> split_slash s = [s]"
  by (induction s) (auto simp: slash_free_def)

lemma split_slash_segments: "s \<in> set (split_slash p) \<Longrightarrow> slash_free s"
  by (induction p arbitrary: s) (auto simp: slash_free_def split: list.splits if_splits)

lemma join_slash_snoc:
  "ss \<noteq> [] \<Longrightarrow> join_slash (ss @ [s]) = join_slash ss @ CHAR_FORWARD_SLASH # s"
  by (induction ss rule: join_slash.induct) auto

lemma split_join_slash:
  "ss \<noteq> [] \<Longrightarrow> \<forall>s \<in> set ss. slash_free s \<Longrightarrow> split_slash (join_slash ss) = ss"
proof (induction ss rule: join_slash.induct)
  case 1
  then show ?case by simp
next
  case (2 s)
  then show ?case by (simp add: split_slash_free)
next
  case (3 s v va)
  then show ?case by (simp add: split_slash_append split_slash_free)
qed

lemma normalize_step_regular: "regular s \<Longrightarrow> normalize_step a res s = res @ [s]"
  by (simp add: normalize_step_def regular_def)

lemma foldl_normalize_regular:
  "\<forall>s \<in> set ss. regular s \<Longrightarrow> foldl (normalize_step a) res ss = res @ ss"
  by (induction ss arbitrary: res) (simp_all add: normalize_step_regular)

lemma normalize_segments_regular:
  "\<forall>s \<in> set ss. regular s \<Longrightarrow> normalize_segments a ss = ss"
  by (simp add: normalize_segments_def foldl_normalize_regular)

lemma normalize_segments_snoc:
  "normalize_segments a (ss @ [s]) = normalize_step a (normalize_segments a ss) s"
  by (simp add: normalize_segments_def)

lemma normalize_step_clean:
  "\<forall>r \<in> set res. regular r \<Longrightarrow> slash_free s \<Longrightarrow> \<forall>r \<in> set (normalize_step False res s). regular r"
  by (auto simp: normalize_step_def regular_def dest: in_set_butlastD)

lemma foldl_normalize_clean:
  "\<forall>r \<in> set res. regular r \<Longrightarrow> \<forall>s \<in> set ss. slash_free s \<Longrightarrow>
     \<forall>r \<in> set (foldl (normalize_step False) res ss). regular r"
proof (induction ss arbitrary: res)
  case Nil
  then show ?case by simp
next
  case (Cons s ss)
  have "\<forall>r \<in> set (normalize_step False res s). regular r"
    using Cons.prems by (intro normalize_step_clean) auto
  then show ?case
    using Cons.prems by (simp add: Cons.IH)
qed

lemma normalize_segments_clean:
  "\<forall>s \<in> set ss. slash_free s \<Longrightarrow> \<forall>r \<in> set (normalize_segments False ss). regular r"
  unfolding normalize_segments_def by (rule foldl_normalize_clean) auto

lemma join_slash_empty: "\<forall>s \<in> set ss. s \<noteq> [] \<Longrightarrow> join_slash ss = [] \<longleftrightarrow> ss = []"
  by (induction ss rule: join_slash.induct) auto

lemma join_slash_last:
  "ss \<noteq> [] \<Longrightarrow> last ss \<noteq> [] \<Longrightarrow> last (join_slash ss) = last (last ss)"
proof (cases ss rule: rev_cases)
  case Nil
  assume "ss \<noteq> []"
  then show ?thesis using Nil by simp
next
  case (snoc ys y)
  assume "last ss \<noteq> []"
  then show ?thesis
    using snoc by (cases "ys = []") (simp_all add: join_slash_snoc)
qed

lemma resolve_absolute:
  "isAbsolute b \<Longrightarrow>
     resolve e [b] = CHAR_FORWARD_SLASH # join_slash (normalize_segments False (split_slash b))"
  by (simp add: resolve_def isAbsolute_def normalizeString_def split_slash_append
      normalize_segments_snoc normalize_step_def)

lemma normalize_clean:
  assumes "\<forall>s \<in> set ss. regular s" and "ss \<noteq> []"
  shows "normalize (CHAR_FORWARD_SLASH # join_slash ss) = CHAR_FORWARD_SLASH # join_slash ss"
proof -
  have sf: "\<forall>s \<in> set ss. slash_free s"
    using assms(1) by (simp add: regular_def)
  have l: "last ss \<noteq> [] \<and> slash_free (last ss)"
    using assms by (simp add: regular_def)
  then have "last (join_slash ss) \<noteq> CHAR_FORWARD_SLASH"
    using assms(2) l by (metis join_slash_last last_in_set slash_free_def)
  moreover have "join_slash ss \<noteq> []"
    using assms by (simp add: join_slash_empty regular_def)
  moreover have "normalize_segments False ([] # ss) = ss"
    using assms(1) by (simp add: normalize_segments_def normalize_step_def foldl_normalize_regular)
  ultimately show ?thesis
    using assms(2) sf
    by (simp add: normalize_def isAbsolute_def normalizeString_def split_join_slash)
qed

lemma resolved_segments_clean: "\<forall>s \<in> set (resolved_segments e p). regular s"
  unfolding resolved_segments_def
  by (rule normalize_segments_clean) (auto dest: split_slash_segments)

lemma normalize_segments_append:
  "normalize_segments a (xs @ ys) = foldl (normalize_step a) (normalize_segments a xs) ys"
  by (simp add: normalize_segments_def)

lemma normalize_step_noop [simp]: "normalize_step a res [] = res"
  by (simp add: normalize_step_def)

lemma resolve_segments:
  assumes "isAbsolute (process_cwd e) \<or> isAbsolute p"
  shows "resolve e [p] = CHAR_FORWARD_SLASH # join_slash (resolved_segments e p)"
proof (cases "p = []")
  case True
  then show ?thesis
    using assms
    by (simp add: resolve_def isAbsolute_def normalizeString_def split_slash_append
        resolved_segments_def normalize_segments_append)
next
  case False
  show ?thesis
  proof (cases "isAbsolute p")
    case True
    then show ?thesis
      by (simp add: resolve_absolute resolved_segments_def)
  next
    case rel: False
    then show ?thesis
      using assms False
      by (simp add: resolve_def isAbsolute_def normalizeString_def split_slash_append
          resolved_segments_def normalize_segments_append)
  qed
qed

lemma normalize_resolved:
  assumes "\<forall>s \<in> set ss. regular s"
  shows "normalize (CHAR_FORWARD_SLASH # join_slash ss) = CHAR_FORWARD_SLASH # join_slash ss"
proof (cases "ss = []")
  case True
  then show ?thesis
    by (simp add: normalize_def isAbsolute_def normalizeString_def normalize_segments_def js_def)
next
  case False
  then show ?thesis using assms by (simp add: normalize_clean)
qed

lemma join_slash_append:
  "xs \<noteq> [] \<Longrightarrow> ys \<noteq> [] \<Longrightarrow>
     join_slash (xs @ ys) = join_slash xs @ CHAR_FORWARD_SLASH # join_slash ys"
  by (induction xs rule: join_slash.induct) (auto simp: neq_Nil_conv)

lemma join_slash_inj:
  assumes "\<forall>s \<in> set xs. regular s" and "\<forall>s \<in> set ys. regular s"
    and "join_slash xs = join_slash ys"
  shows "xs = ys"
proof (cases "xs = [] \<or> ys = []")
  case True
  have "join_slash xs = [] \<longleftrightarrow> xs = []" "join_slash ys = [] \<longleftrightarrow> ys = []"
    using assms(1,2) by (simp_all add: join_slash_empty regular_def)
  then show ?thesis
    using True assms(3) by auto
next
  case False
  then have "split_slash (join_slash xs) = xs" "split_slash (join_slash ys) = ys"
    using assms(1,2) by (simp_all add: split_join_slash regular_def)
  then show ?thesis
    using assms(3) by metis
qed

lemma prefix_join_slash:
  assumes B: "\<forall>s \<in> set B. regular s" and T: "\<forall>s \<in> set T. regular s" and ne: "B \<noteq> []"
  shows "prefix (join_slash B @ [CHAR_FORWARD_SLASH]) (join_slash T) \<or> join_slash T = join_slash B
           \<longleftrightarrow> prefix B T"
proof
  assume "prefix B T"
  then obtain R where R: "T = B @ R"
    by (auto simp: prefix_def)
  show "prefix (join_slash B @ [CHAR_FORWARD_SLASH]) (join_slash T) \<or> join_slash T = join_slash B"
  proof (cases "R = []")
    case True
    then show ?thesis using R by simp
  next
    case False
    then show ?thesis
      using R ne by (simp add: join_slash_append prefix_def)
  qed
next
  assume "prefix (join_slash B @ [CHAR_FORWARD_SLASH]) (join_slash T) \<or> join_slash T = join_slash B"
  then show "prefix B T"
  proof
    assume "join_slash T = join_slash B"
    then have "T = B"
      by (rule join_slash_inj [OF T B])
    then show ?thesis by simp
  next
    assume "prefix (join_slash B @ [CHAR_FORWARD_SLASH]) (join_slash T)"
    then obtain r where r: "join_slash T = join_slash B @ CHAR_FORWARD_SLASH # r"
      by (auto simp: prefix_def)
    have Tne: "T \<noteq> []"
      using r by auto
    have "T = split_slash (join_slash T)"
      using T Tne by (simp add: split_join_slash regular_def)
    also have "\<dots> = split_slash (join_slash B) @ split_slash r"
      by (simp add: r split_slash_append)
    also have "\<dots> = B @ split_slash r"
      using B ne by (simp add: split_join_slash regular_def)
    finally show ?thesis
      by (metis prefixI)
  qed
qed

lemma isPathSafe_segments:
  assumes "isAbsolute (process_cwd e) \<or> isAbsolute b \<and> isAbsolute t"
  shows "isPathSafe e b t \<longleftrightarrow>
           (if resolved_segments e b = [] then resolved_segments e t = []
            else prefix (resolved_segments e b) (resolved_segments e t))"
proof -
  let ?B = "resolved_segments e b" and ?T = "resolved_segments e t"
  have B: "\<forall>s \<in> set ?B. regular s" and T: "\<forall>s \<in> set ?T. regular s"
    by (rule resolved_segments_clean)+
  have safe: "isPathSafe e b t \<longleftrightarrow>
      prefix (join_slash ?B @ [CHAR_FORWARD_SLASH]) (join_slash ?T) \<or> join_slash ?T = join_slash ?B"
  proof -
    have "resolve e [b] = CHAR_FORWARD_SLASH # join_slash ?B"
      and "resolve e [t] = CHAR_FORWARD_SLASH # join_slash ?T"
      using assms by (auto intro: resolve_segments)
    then show ?thesis
      using B T by (simp add: isPathSafe_def normalize_resolved sep_def js_def)
  qed
  show ?thesis
  proof (cases "?B = []")
    case True
    have "\<not> prefix [CHAR_FORWARD_SLASH] (join_slash ?T)"
    proof
      assume "prefix [CHAR_FORWARD_SLASH] (join_slash ?T)"
      then obtain r where r: "join_slash ?T = CHAR_FORWARD_SLASH # r"
        by (auto simp: prefix_def)
      then have "?T \<noteq> []" by auto
      then have "split_slash (join_slash ?T) = ?T"
        using T by (simp add: split_join_slash regular_def)
      then have "[] \<in> set ?T"
        using r by (metis list.set_intros(1) split_slash.simps(2))
      then show False
        using T by (auto simp: regular_def)
    qed
    then show ?thesis
      using True T safe join_slash_empty [of ?T] by (auto simp: regular_def)
  next
    case False
    then show ?thesis
      using safe prefix_join_slash [OF B T False] by simp
  qed
qed

lemma normalize_step_above:
  "\<forall>r \<in> set res. dotdot_or_regular r \<Longrightarrow> slash_free s \<Longrightarrow>
     \<forall>r \<in> set (normalize_step True res s). dotdot_or_regular r"
  by (auto simp: normalize_step_def dotdot_or_regular_def regular_def dest: in_set_butlastD)

lemma foldl_normalize_above:
  "\<forall>r \<in> set res. dotdot_or_regular r \<Longrightarrow> \<forall>s \<in> set ss. slash_free s \<Longrightarrow>
     \<forall>r \<in> set (foldl (normalize_step True) res ss). dotdot_or_regular r"
proof (induction ss arbitrary: res)
  case Nil
  then show ?case by simp
next
  case (Cons s ss)
  have "\<forall>r \<in> set (normalize_step True res s). dotdot_or_regular r"
    using Cons.prems by (intro normalize_step_above) auto
  then show ?case
    using Cons.prems by (simp add: Cons.IH)
qed

lemma normalize_segments_above:
  "\<forall>s \<in> set ss. slash_free s \<Longrightarrow> \<forall>r \<in> set (normalize_segments True ss). dotdot_or_regular r"
  unfolding normalize_segments_def by (rule foldl_normalize_above) auto

lemma normalize_step_absorb:
  assumes M: "\<forall>r \<in> set M. dotdot_or_regular r"
  shows "foldl (normalize_step False) R (normalize_step True M x)
           = normalize_step False (foldl (normalize_step False) R M) x"
proof (cases "x = js ''..'' \<and> M \<noteq> [] \<and> last M \<noteq> js ''..''")
  case True
  then obtain t y where My: "M = t @ [y]"
    by (metis append_butlast_last_id)
  then have y: "regular y"
    using M True by (auto simp: dotdot_or_regular_def)
  have "normalize_step True M x = t"
    using True My by (simp add: normalize_step_def js_def)
  moreover have "foldl (normalize_step False) R M = foldl (normalize_step False) R t @ [y]"
    using y by (simp add: My normalize_step_regular)
  ultimately show ?thesis
    using True y by (simp add: normalize_step_def regular_def js_def)
next
  case False
  then show ?thesis
    by (auto simp: normalize_step_def)
qed

lemma normalize_segments_absorb:
  assumes "\<forall>s \<in> set b. slash_free s"
  shows "foldl (normalize_step False) R (normalize_segments True b)
           = foldl (normalize_step False) R b"
  using assms
proof (induction b rule: rev_induct)
  case Nil
  then show ?case by (simp add: normalize_segments_def)
next
  case (snoc x xs)
  have "\<forall>r \<in> set (normalize_segments True xs). dotdot_or_regular r"
    using snoc.prems by (intro normalize_segments_above) auto
  then show ?case
    using snoc by (simp add: normalize_segments_snoc normalize_step_absorb)
qed

lemma resolved_segments_append:
  "a \<noteq> [] \<Longrightarrow>
     resolved_segments e (a @ CHAR_FORWARD_SLASH # b)
       = foldl (normalize_step False) (resolved_segments e a) (split_slash b)"
  by (simp add: resolved_segments_def isAbsolute_def split_slash_append normalize_segments_def)

lemma resolved_segments_trailing:
  "a \<noteq> [] \<Longrightarrow> resolved_segments e (a @ [CHAR_FORWARD_SLASH]) = resolved_segments e a"
  using resolved_segments_append [of a e "[]"] by simp

lemma resolved_segments_relative:
  "\<not> isAbsolute p \<Longrightarrow>
     resolved_segments e p
       = foldl (normalize_step False) (normalize_segments False (split_slash (process_cwd e)))
           (split_slash p)"
  by (simp add: resolved_segments_def normalize_segments_def)

lemma join_slash_first:
  "ss \<noteq> [] \<Longrightarrow> hd ss \<noteq> [] \<Longrightarrow> join_slash ss \<noteq> [] \<and> hd (join_slash ss) = hd (hd ss)"
  by (induction ss rule: join_slash.induct) auto

lemma resolved_segments_normalize:
  "resolved_segments e (normalize p) = resolved_segments e p"
proof (cases "p = []")
  case True
  then show ?thesis
    by (simp add: normalize_def resolved_segments_def isAbsolute_def js_def
        normalize_segments_def normalize_step_def)
next
  case False
  define N where "N = normalize_segments (\<not> isAbsolute p) (split_slash p)"
  define q where "q = (if isAbsolute p then CHAR_FORWARD_SLASH # join_slash N else join_slash N)"
  have sf: "\<forall>s \<in> set (split_slash p). slash_free s"
    by (auto dest: split_slash_segments)
  have N: "\<forall>s \<in> set N. dotdot_or_regular s"
  proof (cases "isAbsolute p")
    case True
    then show ?thesis
      using normalize_segments_clean [OF sf] by (simp add: N_def dotdot_or_regular_def)
  next
    case False
    then show ?thesis
      using normalize_segments_above [OF sf] by (simp add: N_def)
  qed
  then have Nsf: "\<forall>s \<in> set N. slash_free s" and Nne: "\<forall>s \<in> set N. s \<noteq> []"
    by (auto simp: dotdot_or_regular_def regular_def slash_free_def js_def)
  have core: "resolved_segments e q = resolved_segments e p" if "N \<noteq> []"
  proof (cases "isAbsolute p")
    case True
    have "normalize_segments False ([] # N) = N"
      using normalize_segments_clean [OF sf] True
      by (simp add: N_def normalize_segments_def foldl_normalize_regular)
    then show ?thesis
      using True that Nsf
      by (simp add: q_def resolved_segments_def isAbsolute_def split_join_slash N_def)
  next
    case rel: False
    have "hd N \<noteq> [] \<and> slash_free (hd N)"
      using that Nsf Nne by simp
    then have "\<not> isAbsolute (join_slash N)"
      using that join_slash_first [of N]
      by (auto simp: isAbsolute_def slash_free_def) (metis hd_in_set list.set_sel(1))
    then show ?thesis
      using rel that Nsf sf
      by (simp add: q_def resolved_segments_relative split_join_slash N_def
          normalize_segments_absorb)
  qed
  have qne: "q \<noteq> []" if "N \<noteq> []"
    using that Nne join_slash_empty [of N] by (auto simp: q_def)
  have js: "join_slash N = [] \<longleftrightarrow> N = []"
    using Nne by (rule join_slash_empty)
  show ?thesis
  proof (cases "N = []")
    case True
    show ?thesis
    proof (cases "isAbsolute p")
      case abs: True
      then have "normalize p = js ''/''"
        using True False js by (simp add: normalize_def normalizeString_def N_def)
      moreover have "resolved_segments e (js ''/'') = []"
        by (simp add: resolved_segments_def isAbsolute_def js_def normalize_segments_def)
      moreover have "resolved_segments e p = []"
        using abs True by (simp add: resolved_segments_def N_def)
      ultimately show ?thesis by simp
    next
      case rel: False
      let ?C = "normalize_segments False (split_slash (process_cwd e))"
      have "normalize p = js ''./'' \<or> normalize p = js ''.''"
        using True False rel js by (simp add: normalize_def normalizeString_def N_def)
      moreover have "resolved_segments e (js ''./'') = ?C" "resolved_segments e (js ''.'') = ?C"
        by (simp_all add: resolved_segments_def isAbsolute_def js_def normalize_segments_def
            normalize_step_def)
      moreover have "resolved_segments e p = ?C"
        using normalize_segments_absorb [OF sf, of ?C] rel True
        by (simp add: resolved_segments_relative N_def)
      ultimately show ?thesis by auto
    qed
  next
    case Nne': False
    have "normalize p = q \<or> normalize p = q @ [CHAR_FORWARD_SLASH]"
      using False Nne' js
      by (auto simp: normalize_def normalizeString_def N_def q_def Let_def js_def)
    then show ?thesis
      using core [OF Nne'] qne [OF Nne'] resolved_segments_trailing [of q e] by auto
  qed
qed

lemma sanitizeName_regular: "regular (sanitizeName nm)"
proof -
  let ?s = "sanitizeName nm"
  have ne: "?s \<noteq> []"
    by (rule sanitizeName_nonempty)
  have "hd ?s \<noteq> CHAR_DOT"
    using sanitizeName_hd [of nm] by (auto simp: dot_or_space_def)
  then have "?s \<noteq> js ''.''" "?s \<noteq> js ''..''"
    by (auto simp: js_def)
  moreover have "slash_free ?s"
    using sanitizeName_no_path_char [of CHAR_FORWARD_SLASH nm]
    by (auto simp: slash_free_def path_char_def)
  ultimately show ?thesis
    using ne by (simp add: regular_def)
qed

lemma regular_relative: "regular s \<Longrightarrow> \<not> isAbsolute s"
  by (cases s) (auto simp: regular_def isAbsolute_def slash_free_def)

lemma resolved_segments_join:
  assumes "regular s"
  shows "resolved_segments e (join [b, s]) = resolved_segments e b @ [s]"
proof (cases "b = []")
  case True
  have "join [b, s] = normalize s"
    using True assms by (simp add: join_def regular_def)
  moreover have "resolved_segments e s = resolved_segments e [] @ [s]"
    using assms regular_relative [OF assms]
    by (simp add: resolved_segments_relative isAbsolute_def split_slash_free regular_def
        normalize_step_regular)
  ultimately show ?thesis
    using True by (simp add: resolved_segments_normalize)
next
  case False
  then have "join [b, s] = normalize (b @ CHAR_FORWARD_SLASH # s)"
    using assms by (simp add: join_def regular_def)
  then show ?thesis
    using False assms
    by (simp add: resolved_segments_normalize resolved_segments_append split_slash_free
        regular_def normalize_step_regular)
qed

lemma join_absolute: "isAbsolute b \<Longrightarrow> regular s \<Longrightarrow> isAbsolute (join [b, s])"
proof -
  assume b: "isAbsolute b" and s: "regular s"
  then have j: "join [b, s] = normalize (b @ CHAR_FORWARD_SLASH # s)"
    by (auto simp: join_def regular_def isAbsolute_def)
  have "isAbsolute (b @ CHAR_FORWARD_SLASH # s)"
    using b by (auto simp: isAbsolute_def)
  then show ?thesis
    unfolding j by (auto simp: normalize_def isAbsolute_def js_def Let_def)
qed

section \<open>Properties of the installer\<close>

lemma bind_assoc: "bind (bind m f) g = bind m (\<lambda>x. bind (f x) g)"
  by (auto simp: bind_def fun_eq_iff split: option.splits sum.splits prod.splits)

lemma bind_return [simp]: "bind (return x) f = f x"
  by (simp add: bind_def return_def fun_eq_iff)

lemma bind_throw [simp]: "bind (throw err) f = throw err"
  by (simp add: bind_def throw_def fun_eq_iff)

lemma bind_eq_Some:
  "bind m f s = Some (x, s') \<longleftrightarrow>
     (\<exists>err. m s = Some (Inl err, s') \<and> x = Inl err)
     \<or> (\<exists>y s1. m s = Some (Inr y, s1) \<and> f y s1 = Some (x, s'))"
  by (auto simp: bind_def split: option.splits sum.splits prod.splits)

lemma try_catch_eq_Some:
  "try_catch m h s = Some (x, s') \<longleftrightarrow>
     (\<exists>err s1. m s = Some (Inl err, s1) \<and> h err s1 = Some (x, s'))
     \<or> (\<exists>y. m s = Some (Inr y, s') \<and> x = Inr y)"
  by (auto simp: try_catch_def split: option.splits sum.splits prod.splits)

lemma return_eq_Some [simp]: "return y s = Some (x, s') \<longleftrightarrow> x = Inr y \<and> s' = s"
  by (auto simp: return_def)

lemma throw_eq_Some [simp]: "throw err s = Some (x, s') \<longleftrightarrow> x = Inl err \<and> s' = s"
  by (auto simp: throw_def)

lemma yields_return [simp]: "yields e v (return v)"
  by (simp add: yields_def return_def)

lemma yields_process_cwd [simp]: "yields e (process_cwd e) (process_cwd_call e)"
  by (simp add: yields_def process_cwd_call_def host_ready_def)

lemma yields_homedir [simp]: "yields e (homedir e) (homedir_call e)"
  by (simp add: yields_def homedir_call_def host_ready_def return_def throw_def)

lemma yields_bind:
  assumes "yields e v m" and "yields e w (f v)"
  shows "yields e w (bind m f)"
  unfolding yields_def
proof
  fix s
  have m: "m s = Some (Inr v, s) \<or> \<not> host_ready e s \<and> m s = Some (Inl ENOENT, s)"
    using assms(1) unfolding yields_def by (cases "host_ready e s") (auto split: if_splits)
  have f: "f v s = Some (Inr w, s) \<or> \<not> host_ready e s \<and> f v s = Some (Inl ENOENT, s)"
    using assms(2) unfolding yields_def by (cases "host_ready e s") (auto split: if_splits)
  show "if host_ready e s then bind m f s = Some (Inr w, s)
        else bind m f s = Some (Inr w, s) \<or> bind m f s = Some (Inl ENOENT, s)"
    using m f by (auto simp: bind_def)
qed

lemma yields_or_call [simp]: "yields e (or_else x (process_cwd e)) (or_call x (process_cwd_call e))"
  by (simp add: or_else_def or_call_def split: option.splits)

lemma yields_resolve [simp]: "yields e (resolve e args) (resolve_call e args)"
  unfolding resolve_call_def
  by (auto intro: yields_bind [OF yields_process_cwd])

lemma yields_relative [simp]: "yields e (relative e a b) (relative_call e a b)"
proof (cases "a = b")
  case True
  then show ?thesis
    by (simp add: relative_call_def relative_def)
next
  case False
  then show ?thesis
    unfolding relative_call_def
    by (auto intro!: yields_bind [OF yields_resolve])
qed

lemma yields_isPathSafe [simp]: "yields e (isPathSafe e b t) (isPathSafe_call e b t)"
proof -
  have "yields e (isPathSafe e b t) (return (isPathSafe e b t))"
    by simp
  then show ?thesis
    unfolding isPathSafe_call_def isPathSafe_def Let_def
    by (intro yields_bind [OF yields_resolve])
qed

lemma or_else_twice [simp]: "or_else (Some (or_else x y)) y = or_else x y"
  by (simp add: or_else_def split: option.splits)

lemma yields_getCanonicalSkillsDir:
  "yields e (join [if g then homedir e else or_else c (process_cwd e), AGENTS_DIR, SKILLS_SUBDIR])
     (getCanonicalSkillsDir e g c)"
  unfolding getCanonicalSkillsDir_def
  by (cases g) (auto intro!: yields_bind [OF yields_homedir] yields_bind [OF yields_or_call])

lemma yields_canonicalBase:
  "yields e (install_canonicalBase e options)
     (getCanonicalSkillsDir e (truthy (global options))
        (Some (or_else (cwd options) (process_cwd e))))"
proof -
  have "yields e
      (join [if truthy (global options) then homedir e
             else or_else (Some (or_else (cwd options) (process_cwd e))) (process_cwd e),
             AGENTS_DIR, SKILLS_SUBDIR])
      (getCanonicalSkillsDir e (truthy (global options))
         (Some (or_else (cwd options) (process_cwd e))))"
    by (rule yields_getCanonicalSkillsDir)
  then show ?thesis
    unfolding install_canonicalBase_def or_else_twice .
qed

lemma guarded_refl [simp]: "guarded e m m"
  by (simp add: guarded_def)

lemma guarded_bind:
  assumes "yields e v m" and "guarded e (f v) n"
  shows "guarded e (bind m f) n"
  unfolding guarded_def
proof
  fix s
  have m: "m s = Some (Inr v, s) \<or> \<not> host_ready e s \<and> m s = Some (Inl ENOENT, s)"
    using assms(1) unfolding yields_def by (cases "host_ready e s") (auto split: if_splits)
  have f: "f v s = n s \<or> \<not> host_ready e s \<and> f v s = Some (Inl ENOENT, s)"
    using assms(2) unfolding guarded_def by (cases "host_ready e s") (auto split: if_splits)
  show "if host_ready e s then bind m f s = n s
        else bind m f s = n s \<or> bind m f s = Some (Inl ENOENT, s)"
    using m f by (auto simp: bind_def)
qed

lemma guarded_eq_Some:
  assumes "guarded e m n" and "m s = Some (x, s')"
  shows "n s = Some (x, s') \<or> \<not> host_ready e s \<and> x = Inl ENOENT \<and> s' = s"
  using assms unfolding guarded_def by (cases "host_ready e s") (auto split: if_splits)

lemma guarded_ready: "guarded e m n \<Longrightarrow> host_ready e s \<Longrightarrow> m s = n s"
  unfolding guarded_def by (auto split: if_splits)

lemma install_checked_body:
  "install_checked depth e agents skill agentType options =
     (if \<not> isPathSafe e (install_canonicalBase e options) (install_canonicalDir e skill options)
      then return \<lparr>success = False,
             path = install_agentDir e (agents agentType) skill options,
             canonicalPath = None, symlinkFailed = None, error = Some traversal_detected\<rparr>
      else if \<not> isPathSafe e (install_agentBase e (agents agentType) options)
                (install_agentDir e (agents agentType) skill options)
      then return \<lparr>success = False,
             path = install_agentDir e (agents agentType) skill options,
             canonicalPath = None, symlinkFailed = None, error = Some traversal_detected\<rparr>
      else
        try_catch
          (bind (mkdir e (install_canonicalDir e skill options)) (\<lambda>_.
           bind (copyDirectory depth e (Skill.path skill) (install_canonicalDir e skill options))
             (\<lambda>_.
             if truthy (noSymlink options) then
               bind (mkdir e (install_agentDir e (agents agentType) skill options)) (\<lambda>_.
               bind (copyDirectory depth e (Skill.path skill)
                      (install_agentDir e (agents agentType) skill options)) (\<lambda>_.
                 return \<lparr>success = True,
                   path = install_agentDir e (agents agentType) skill options,
                   canonicalPath = Some (install_canonicalDir e skill options),
                   symlinkFailed = None, error = None\<rparr>))
             else
               bind (createSymlink e (install_canonicalDir e skill options)
                      (install_agentDir e (agents agentType) skill options)) (\<lambda>symlinkCreated.
                 if \<not> symlinkCreated then
                   bind (mkdir e (install_agentDir e (agents agentType) skill options)) (\<lambda>_.
                   bind (copyDirectory depth e (Skill.path skill)
                          (install_agentDir e (agents agentType) skill options)) (\<lambda>_.
                     return \<lparr>success = True,
                       path = install_agentDir e (agents agentType) skill options,
                       canonicalPath = Some (install_canonicalDir e skill options),
                       symlinkFailed = Some True, error = None\<rparr>))
                 else
                   return \<lparr>success = True,
                     path = install_agentDir e (agents agentType) skill options,
                     canonicalPath = Some (install_canonicalDir e skill options),
                     symlinkFailed = None, error = None\<rparr>))))
          (\<lambda>err. return \<lparr>success = False,
             path = install_agentDir e (agents agentType) skill options,
             canonicalPath = None, symlinkFailed = None, error = Some (message err)\<rparr>))"
  unfolding install_checked_def install_body_def copy_into_def installed_def failed_with_def
    bind_assoc
  by (rule refl)

lemma installSkillForAgent_guarded:
  "guarded e (installSkillForAgent depth e agents skill agentType options)
     (install_checked depth e agents skill agentType options)"
proof -
  let ?agentDir = "install_agentDir e (agents agentType) skill options"
  let ?canonicalDir = "install_canonicalDir e skill options"
  let ?agentBase = "install_agentBase e (agents agentType) options"
  let ?canonicalBase = "install_canonicalBase e options"
  have dirs: "join [?canonicalBase, install_skillName skill] = ?canonicalDir"
    "join [?agentBase, install_skillName skill] = ?agentDir"
    "(if truthy (global options) then globalSkillsDir (agents agentType)
      else join [or_else (cwd options) (process_cwd e), skillsDir (agents agentType)])
     = ?agentBase"
    "sanitizeName (if name skill \<noteq> [] then name skill else basename (Skill.path skill))
     = install_skillName skill"
    by (simp_all add: install_canonicalDir_def install_agentDir_def install_agentBase_def
        install_skillName_def)
  show ?thesis
    unfolding installSkillForAgent_def Let_def
    apply (rule guarded_bind [OF yields_or_call])
    apply (rule guarded_bind [OF yields_canonicalBase])
    unfolding dirs
    apply (rule guarded_bind [OF yields_isPathSafe])
    apply (cases "isPathSafe e ?canonicalBase ?canonicalDir")
     prefer 2
     apply (simp add: install_checked_body)
    apply (simp only: not_True_eq_False not_False_eq_True if_False if_True)
    apply (rule guarded_bind [OF yields_isPathSafe])
    apply (cases "isPathSafe e ?agentBase ?agentDir")
     apply (simp_all add: install_checked_body)
    done
qed

lemma installSkillForAgent_ready:
  "host_ready e s \<Longrightarrow>
     installSkillForAgent depth e agents skill agentType options s
     = install_checked depth e agents skill agentType options s"
  by (rule guarded_ready [OF installSkillForAgent_guarded])

lemma installSkillForAgent_eq_Some:
  assumes "installSkillForAgent depth e agents skill agentType options s = Some (x, s')"
  shows "install_checked depth e agents skill agentType options s = Some (x, s')
     \<or> \<not> host_ready e s \<and> x = Inl ENOENT \<and> s' = s"
  using installSkillForAgent_guarded assms by (rule guarded_eq_Some)

lemma createSymlink_never_throws: "createSymlink e target linkPath s \<noteq> Some (Inl err, s')"
  by (auto simp: createSymlink_def try_catch_eq_Some)

lemma install_body_eq_Some:
  "install_body depth e src canonicalDir agentDir copyOnly s = Some (x, s') \<longleftrightarrow>
     (\<exists>err. copy_into depth e src canonicalDir s = Some (Inl err, s') \<and> x = Inl err)
     \<or> (\<exists>s1. copy_into depth e src canonicalDir s = Some (Inr (), s1) \<and>
          (if copyOnly then
             (\<exists>err. copy_into depth e src agentDir s1 = Some (Inl err, s') \<and> x = Inl err)
             \<or> copy_into depth e src agentDir s1 = Some (Inr (), s')
                \<and> x = Inr (installed agentDir canonicalDir None)
           else
             createSymlink e canonicalDir agentDir s1 = Some (Inr True, s')
               \<and> x = Inr (installed agentDir canonicalDir None)
             \<or> (\<exists>s2. createSymlink e canonicalDir agentDir s1 = Some (Inr False, s2) \<and>
                  ((\<exists>err. copy_into depth e src agentDir s2 = Some (Inl err, s') \<and> x = Inl err)
                   \<or> copy_into depth e src agentDir s2 = Some (Inr (), s')
                      \<and> x = Inr (installed agentDir canonicalDir (Some True))))))"
  by (cases copyOnly)
    (auto simp: install_body_def bind_eq_Some createSymlink_never_throws)

lemma getInstallPath_unfold:
  "getInstallPath e agents nm agentType options =
     (if \<not> isPathSafe e (install_agentBase e (agents agentType) options)
           (join [install_agentBase e (agents agentType) options, sanitizeName nm])
      then Inl traversal_detected
      else Inr (join [install_agentBase e (agents agentType) options, sanitizeName nm]))"
  unfolding getInstallPath_def install_agentBase_def Let_def
  by (rule refl)

lemma install_result_path:
  assumes "installSkillForAgent depth e agents skill agentType options s = Some (Inr r, s')"
  shows "path r = install_agentDir e (agents agentType) skill options"
  using installSkillForAgent_eq_Some [OF assms]
  by (auto simp: install_checked_def try_catch_eq_Some install_body_eq_Some
      installed_def failed_with_def split: if_splits)

lemma copy_into_unfold:
  "bind (mkdir e dir) (\<lambda>_. copyDirectory depth e src dir) = copy_into depth e src dir"
  by (simp add: copy_into_def)

section \<open>The calls of the installer\<close>

lemma only_callsI:
  assumes "\<And>s x s'. wf_fs s \<Longrightarrow> m s = Some (x, s') \<Longrightarrow>
     wf_fs s' \<and> (\<exists>cs. calls s' = calls s @ cs \<and> (\<forall>c \<in> set cs. Q c))"
  shows "only_calls Q m"
  using assms by (auto simp: only_calls_def)

lemma only_callsD:
  assumes "only_calls Q m" and "wf_fs s" and "m s = Some (x, s')"
  shows "wf_fs s'" and "\<exists>cs. calls s' = calls s @ cs \<and> (\<forall>c \<in> set cs. Q c)"
  using assms by (auto simp: only_calls_def)

lemma only_calls_mono:
  "only_calls Q m \<Longrightarrow> (\<And>c. Q c \<Longrightarrow> Q' c) \<Longrightarrow> only_calls Q' m"
  unfolding only_calls_def by blast

lemma silent_only_calls: "silent m \<Longrightarrow> only_calls Q m"
  by (erule only_calls_mono) simp

lemma only_calls_return [simp]: "only_calls Q (return x)"
  by (simp add: only_calls_def)

lemma only_calls_throw [simp]: "only_calls Q (throw err)"
  by (simp add: only_calls_def)

lemma only_calls_bind_result:
  assumes m: "only_calls Q m"
    and G: "\<And>s y s'. wf_fs s \<Longrightarrow> m s = Some (Inr y, s') \<Longrightarrow> G y"
    and f: "\<And>y. G y \<Longrightarrow> only_calls Q (f y)"
  shows "only_calls Q (bind m f)"
proof (rule only_callsI)
  fix s x s'
  assume wf: "wf_fs s" and run: "bind m f s = Some (x, s')"
  from run consider
    (thrown) err where "m s = Some (Inl err, s')" "x = Inl err"
    | (went) y s1 where "m s = Some (Inr y, s1)" "f y s1 = Some (x, s')"
    by (auto simp: bind_eq_Some)
  then show "wf_fs s' \<and> (\<exists>cs. calls s' = calls s @ cs \<and> (\<forall>c \<in> set cs. Q c))"
  proof cases
    case thrown
    then show ?thesis
      using only_callsD [OF m wf] by blast
  next
    case went
    have 1: "wf_fs s1" "\<exists>cs. calls s1 = calls s @ cs \<and> (\<forall>c \<in> set cs. Q c)"
      using only_callsD [OF m wf went(1)] by blast+
    have fy: "only_calls Q (f y)"
      using G [OF wf went(1)] by (rule f)
    have 2: "wf_fs s'" "\<exists>cs. calls s' = calls s1 @ cs \<and> (\<forall>c \<in> set cs. Q c)"
      using only_callsD [OF fy 1(1) went(2)] by blast+
    from 1(2) 2(2) obtain cs1 cs2 where
      "calls s1 = calls s @ cs1" "\<forall>c \<in> set cs1. Q c"
      "calls s' = calls s1 @ cs2" "\<forall>c \<in> set cs2. Q c"
      by blast
    then have "calls s' = calls s @ (cs1 @ cs2) \<and> (\<forall>c \<in> set (cs1 @ cs2). Q c)"
      by auto
    then show ?thesis
      using 2(1) by blast
  qed
qed

lemma only_calls_bind:
  "only_calls Q m \<Longrightarrow> (\<And>y. only_calls Q (f y)) \<Longrightarrow> only_calls Q (bind m f)"
  by (rule only_calls_bind_result [where G = "\<lambda>y. True"]) simp_all

lemma only_calls_try_catch:
  assumes m: "only_calls Q m" and h: "\<And>err. only_calls Q (h err)"
  shows "only_calls Q (try_catch m h)"
proof (rule only_callsI)
  fix s x s'
  assume wf: "wf_fs s" and run: "try_catch m h s = Some (x, s')"
  from run consider
    (caught) err s1 where "m s = Some (Inl err, s1)" "h err s1 = Some (x, s')"
    | (passed) y where "m s = Some (Inr y, s')" "x = Inr y"
    by (auto simp: try_catch_eq_Some)
  then show "wf_fs s' \<and> (\<exists>cs. calls s' = calls s @ cs \<and> (\<forall>c \<in> set cs. Q c))"
  proof cases
    case caught
    have 1: "wf_fs s1" "\<exists>cs. calls s1 = calls s @ cs \<and> (\<forall>c \<in> set cs. Q c)"
      using only_callsD [OF m wf caught(1)] by blast+
    have 2: "wf_fs s'" "\<exists>cs. calls s' = calls s1 @ cs \<and> (\<forall>c \<in> set cs. Q c)"
      using only_callsD [OF h 1(1) caught(2)] by blast+
    from 1(2) 2(2) obtain cs1 cs2 where
      "calls s1 = calls s @ cs1" "\<forall>c \<in> set cs1. Q c"
      "calls s' = calls s1 @ cs2" "\<forall>c \<in> set cs2. Q c"
      by blast
    then have "calls s' = calls s @ (cs1 @ cs2) \<and> (\<forall>c \<in> set (cs1 @ cs2). Q c)"
      by auto
    then show ?thesis
      using 2(1) by blast
  next
    case passed
    then show ?thesis
      using only_callsD [OF m wf] by blast
  qed
qed

lemma only_calls_if:
  "(b \<Longrightarrow> only_calls Q m) \<Longrightarrow> (\<not> b \<Longrightarrow> only_calls Q n) \<Longrightarrow> only_calls Q (if b then m else n)"
  by simp

lemma only_calls_log [simp]: "Q c \<Longrightarrow> only_calls Q (log_call c)"
  by (auto simp: only_calls_def log_call_def wf_fs_def)

text \<open>Primitive operations keep the names regular.\<close>

lemma wf_put_node:
  assumes "wf_fs s" and "regular_location loc"
  shows "wf_fs (put_node loc n s)"
proof -
  have "set (AList.update loc n al) \<subseteq> insert (loc, n) (set al)" for al :: "(location \<times> node) list"
    by (induction al) auto
  then have "set (nodes (put_node loc n s)) \<subseteq> insert (loc, n) (set (nodes s))"
    by (simp add: put_node_def)
  then show ?thesis
    using assms unfolding wf_fs_def by fastforce
qed

lemma wf_remove_tree: "wf_fs s \<Longrightarrow> wf_fs (remove_tree loc s)"
  by (auto simp: wf_fs_def remove_tree_def)

lemma regular_location_simps [simp]:
  "regular_location []"
  "regular_location (loc @ [c]) \<longleftrightarrow> regular_location loc \<and> regular c"
  "regular_location loc \<Longrightarrow> regular_location (butlast loc)"
  by (auto simp: regular_location_def dest: in_set_butlastD)

lemma walk_regular:
  assumes "walk k s cur comps follow = Inr loc"
    and "regular_location cur" and "\<forall>c \<in> set comps. slash_free c"
  shows "regular_location loc"
  using assms
proof (induction k s cur comps follow rule: walk.induct)
  case (1 k s cur follow)
  then show ?case by simp
next
  case (2 k s cur c cs follow)
  have reg: "regular c" if "c \<noteq> []" "c \<noteq> js ''.''" "c \<noteq> js ''..''"
    using that "2.prems"(3) by (simp add: regular_def)
  have payload: "\<forall>c \<in> set (split_slash p @ cs). slash_free c" for p
    using "2.prems"(3) by (auto dest: split_slash_segments)
  show ?case
  proof (cases "c = [] \<or> c = js ''.''")
    case True
    then show ?thesis
      using 2 by auto
  next
    case False
    note nodot = this
    show ?thesis
    proof (cases "c = js ''..''")
      case True
      then show ?thesis
        using 2 nodot by auto
    next
      case False
      then have c: "regular c"
        using nodot reg by auto
      show ?thesis
      proof (cases "node_at s (cur @ [c])")
        case None
        then show ?thesis
          using "2.prems" nodot False c by (auto split: if_splits)
      next
        case (Some n)
        show ?thesis
        proof (cases n)
          case (File content)
          then show ?thesis
            using "2.prems" nodot False c Some by (auto split: if_splits)
        next
          case Dir
          then show ?thesis
            using "2.prems" "2.IH"(3) nodot False c Some by auto
        next
          case (Link p)
          show ?thesis
          proof (cases "cs = [] \<and> \<not> follow")
            case True
            then show ?thesis
              using "2.prems" nodot False c Some Link by auto
          next
            case nf: False
            then obtain k' where k: "k = Suc k'"
              using "2.prems"(1) nodot False Some Link by (cases k) auto
            have "walk k' s (if isAbsolute p then [] else cur) (split_slash p @ cs) follow
                = Inr loc"
              using "2.prems"(1) nodot False Some Link nf k by auto
            then show ?thesis
              using "2.IH"(4) [OF nodot False Some Link nf k] "2.prems"(2) payload
              by auto
          qed
        qed
      qed
    qed
  qed
qed

lemma calls_put_node [simp]: "calls (put_node loc n s) = calls s"
  by (simp add: put_node_def)

lemma calls_remove_tree [simp]: "calls (remove_tree loc s) = calls s"
  by (simp add: remove_tree_def)

lemma start_regular [simp]: "regular_location (start e p)"
  using normalize_segments_clean [of "split_slash (process_cwd e)"]
  by (auto simp: start_def regular_location_def dest: split_slash_segments)

lemma locate_regular:
  assumes "locate e follow p s = Inr loc"
  shows "regular_location loc"
proof -
  have "walk MAXSYMLINKS s (start e p) (split_slash p) follow = Inr loc"
    using assms by (simp add: locate_def split: if_splits)
  moreover have "\<forall>c \<in> set (split_slash p). slash_free c"
    by (auto dest: split_slash_segments)
  ultimately show ?thesis
    by (rule walk_regular [OF _ start_regular])
qed

lemma stat_at_result:
  "stat_at e follow p s = Some (x, s') \<Longrightarrow>
     s' = s \<and> (\<forall>loc n. x = Inr (loc, n) \<longrightarrow> regular_location loc \<and> node_at s loc = Some n)"
  by (auto simp: stat_at_def split: sum.splits option.splits dest: locate_regular)

lemma silentI:
  assumes "\<And>s x s'. wf_fs s \<Longrightarrow> m s = Some (x, s') \<Longrightarrow> wf_fs s' \<and> calls s' = calls s"
  shows "silent m"
proof (rule only_callsI)
  fix s x s'
  assume a: "wf_fs s" and b: "m s = Some (x, s')"
  have "calls s' = calls s @ [] \<and> (\<forall>c \<in> set []. False)"
    using assms [OF a b] by simp
  then have "\<exists>cs. calls s' = calls s @ cs \<and> (\<forall>c \<in> set cs. False)"
    by (rule exI)
  then show "wf_fs s' \<and> (\<exists>cs. calls s' = calls s @ cs \<and> (\<forall>c \<in> set cs. False))"
    using assms [OF a b] by (rule_tac conjI) (rule conjunct1)
qed

lemma silent_stat_at [simp]: "silent (stat_at e follow p)"
  by (rule silentI) (auto dest: stat_at_result)

lemma silent_bind: "silent m \<Longrightarrow> (\<And>y. silent (f y)) \<Longrightarrow> silent (bind m f)"
  by (rule only_calls_bind)

lemma silent_bind_result:
  "silent m \<Longrightarrow> (\<And>s y s'. wf_fs s \<Longrightarrow> m s = Some (Inr y, s') \<Longrightarrow> G y) \<Longrightarrow>
     (\<And>y. G y \<Longrightarrow> silent (f y)) \<Longrightarrow> silent (bind m f)"
  by (rule only_calls_bind_result)

lemma silent_lstat [simp]: "silent (lstat e p)"
  unfolding lstat_def by (intro silent_bind) (auto split: prod.splits)

lemma silent_stat [simp]: "silent (stat e p)"
  unfolding stat_def by (intro silent_bind) (auto split: prod.splits)

lemma silent_readlink [simp]: "silent (readlink e p)"
  unfolding readlink_def by (intro silent_bind) (auto split: node.splits)

lemma silent_readdir [simp]: "silent (readdir e p)"
  unfolding readdir_def
  by (intro silent_bind) (auto intro!: silentI split: prod.splits node.splits)

lemma children_regular:
  "wf_fs s \<Longrightarrow> d \<in> set (children s loc) \<Longrightarrow> regular (entry_name d)"
  by (auto simp: children_def wf_fs_def regular_location_def)

lemma readdir_result:
  assumes "wf_fs s" and "readdir e p s = Some (Inr entries, s')"
  shows "\<forall>d \<in> set entries. regular (entry_name d)"
proof -
  from assms(2) obtain loc n s1 where
    st: "stat_at e True p s = Some (Inr (loc, n), s1)"
    and rest: "(case n of Dir \<Rightarrow> Some (Inr (children s1 loc), s1) | _ \<Rightarrow> Some (Inl ENOTDIR, s1))
      = Some (Inr entries, s')"
    by (auto simp: readdir_def bind_eq_Some)
  have "s1 = s"
    using stat_at_result [OF st] by simp
  then have "entries = children s loc"
    using rest by (cases n) auto
  then show ?thesis
    using assms(1) by (auto intro: children_regular)
qed

lemma make_dirs_wf:
  assumes "make_dirs s cur comps = (x, s')"
    and "wf_fs s" and "regular_location cur" and "\<forall>c \<in> set comps. slash_free c"
  shows "wf_fs s' \<and> calls s' = calls s"
  using assms
proof (induction s cur comps rule: make_dirs.induct)
  case (1 s cur)
  then show ?case by simp
next
  case (2 s cur c cs)
  have sf: "\<forall>c \<in> set cs. slash_free c"
    using "2.prems"(4) by simp
  show ?case
  proof (cases "c = [] \<or> c = js ''.''")
    case True
    then show ?thesis
      using 2 by auto
  next
    case nodot: False
    show ?thesis
    proof (cases "c = js ''..''")
      case True
      then show ?thesis
        using 2 nodot by auto
    next
      case False
      then have c: "regular c"
        using nodot "2.prems"(4) by (simp add: regular_def)
      then have loc: "regular_location (cur @ [c])"
        using "2.prems"(3) by simp
      show ?thesis
      proof (cases "node_at s (cur @ [c])")
        case None
        have "wf_fs (put_node (cur @ [c]) Dir s)"
          using "2.prems"(2) loc by (rule wf_put_node)
        then show ?thesis
          using "2.IH"(3) [OF nodot False None _ _ loc sf] "2.prems"(1) nodot False None
          by auto
      next
        case (Some n)
        show ?thesis
        proof (cases n)
          case (File content)
          then show ?thesis
            using "2.prems" nodot False Some by auto
        next
          case Dir
          then show ?thesis
            using "2.IH"(4) [OF nodot False Some Dir _ "2.prems"(2) loc sf]
              "2.prems"(1) nodot False Some
            by auto
        next
          case (Link p)
          show ?thesis
          proof (cases "walk MAXSYMLINKS s cur [c] True")
            case (Inl err)
            then show ?thesis
              using "2.prems" nodot False Some Link by auto
          next
            case (Inr loc')
            have loc': "regular_location loc'"
              using walk_regular [OF Inr "2.prems"(3)] "2.prems"(4) by simp
            show ?thesis
            proof (cases "node_at s loc'")
              case None
              then show ?thesis
                using "2.prems" nodot False Some Link Inr by auto
            next
              case found: (Some n')
              show ?thesis
              proof (cases n')
                case Dir
                then show ?thesis
                  using "2.IH"(5) [OF nodot False Some Link Inr found Dir _ "2.prems"(2) loc' sf]
                    "2.prems"(1) nodot False Some Link Inr found
                  by auto
              next
                case (File content)
                then show ?thesis
                  using "2.prems" nodot False Some Link Inr found by auto
              next
                case (Link q)
                then show ?thesis
                  using "2.prems" nodot False Some \<open>n = Link p\<close> Inr found by auto
              qed
            qed
          qed
        qed
      qed
    qed
  qed
qed

lemma silent_make_path [simp]: "silent (make_path e p)"
proof (rule silentI)
  fix s x s'
  assume wf: "wf_fs s" and run: "make_path e p s = Some (x, s')"
  show "wf_fs s' \<and> calls s' = calls s"
  proof (cases "p = [] \<or> length p > PATH_MAX \<or> \<not> isAbsolute p \<and> \<not> cwd_exists e s")
    case True
    then show ?thesis
      using wf run by (auto simp: make_path_def split: if_splits)
  next
    case False
    then have "make_dirs s (start e p) (split_slash p) = (x, s')"
      using run by (auto simp: make_path_def split: if_splits)
    then show ?thesis
      using wf by (rule make_dirs_wf) (auto dest: split_slash_segments)
  qed
qed

lemma silent_state:
  assumes "\<And>s. wf_fs s \<Longrightarrow> \<exists>x s'. m s = Some (x, s') \<and> wf_fs s' \<and> calls s' = calls s"
  shows "silent m"
proof (rule silentI)
  fix s x s'
  assume "wf_fs s" and run: "m s = Some (x, s')"
  then obtain y t where "m s = Some (y, t)" "wf_fs t" "calls t = calls s"
    using assms by blast
  then show "wf_fs s' \<and> calls s' = calls s"
    using run by simp
qed

lemma silent_unlink [simp]: "silent (unlink e p)"
  unfolding unlink_def
proof (rule silent_bind [OF silent_stat_at])
  fix y :: "location \<times> node"
  obtain loc n where y: "y = (loc, n)"
    by (cases y)
  show "silent (case y of (loc, n) \<Rightarrow> \<lambda>s. case n of
      Dir \<Rightarrow> Some (Inl EISDIR, s) | _ \<Rightarrow> Some (Inr (), remove_tree loc s))"
    unfolding y by (rule silent_state) (cases n; simp add: wf_remove_tree)
qed

lemma silent_remove [simp]: "silent (remove e p recursive)"
  unfolding remove_def
proof (rule silent_bind [OF silent_stat_at])
  fix y :: "location \<times> node"
  obtain loc n where y: "y = (loc, n)"
    by (cases y)
  show "silent (case y of (loc, n) \<Rightarrow> \<lambda>s. case n of
      Dir \<Rightarrow> if \<not> recursive then Some (Inl EISDIR, s)
             else if loc = [] then Some (Inl EPERM, s)
             else Some (Inr (), remove_tree loc s)
    | _ \<Rightarrow> Some (Inr (), remove_tree loc s))"
    unfolding y by (rule silent_state) (cases n; simp add: wf_remove_tree)
qed

lemma silent_make_link [simp]: "silent (make_link e t p)"
proof (rule silentI)
  fix s x s'
  assume wf: "wf_fs s" and run: "make_link e t p s = Some (x, s')"
  show "wf_fs s' \<and> calls s' = calls s"
  proof (cases "locate e False p s")
    case (Inl err)
    then show ?thesis
      using wf run by (auto simp: make_link_def split: if_splits)
  next
    case (Inr loc)
    then have "wf_fs (put_node loc (Link t) s)"
      using wf by (intro wf_put_node locate_regular)
    then show ?thesis
      using wf run Inr by (auto simp: make_link_def split: if_splits option.splits)
  qed
qed

lemma silent_write_file [simp]: "silent (write_file e p content)"
proof (rule silentI)
  fix s x s'
  assume wf: "wf_fs s" and run: "write_file e p content s = Some (x, s')"
  show "wf_fs s' \<and> calls s' = calls s"
  proof (cases "locate e True p s")
    case (Inl err)
    then show ?thesis
      using wf run by (auto simp: write_file_def)
  next
    case (Inr loc)
    then have "wf_fs (put_node loc (File content) s)"
      using wf by (intro wf_put_node locate_regular)
    then show ?thesis
      using wf run Inr
      by (auto simp: write_file_def split: option.splits node.splits)
  qed
qed

lemma silent_if: "(b \<Longrightarrow> silent m) \<Longrightarrow> (\<not> b \<Longrightarrow> silent n) \<Longrightarrow> silent (if b then m else n)"
  by simp

lemma silent_try_catch: "silent m \<Longrightarrow> (\<And>err. silent (h err)) \<Longrightarrow> silent (try_catch m h)"
  by (rule only_calls_try_catch)

lemma silent_onFile [simp]: "silent (onFile e destStat content dest)"
  unfolding onFile_def
  by (cases destStat) (simp_all add: silent_bind)

lemma silent_onLink [simp]: "silent (onLink e destStat src dest)"
  unfolding onLink_def Let_def
proof (rule silent_bind [OF silent_readlink])
  fix payload
  show "silent (case destStat of
      None \<Rightarrow> make_link e (absolute_target e src payload) dest
    | Some (destLoc, Link destPayload) \<Rightarrow>
        if isSrcSubdir e (absolute_target e src payload) (absolute_target e dest destPayload)
        then throw EINVAL
        else bind (stat e src) (\<lambda>srcStat.
          if srcStat = Dir \<and> isSrcSubdir e (absolute_target e dest destPayload)
               (absolute_target e src payload)
          then throw EINVAL
          else bind (unlink e dest) (\<lambda>_. make_link e (absolute_target e src payload) dest))
    | Some (destLoc, n) \<Rightarrow> make_link e (absolute_target e src payload) dest)"
  proof (cases destStat)
    case None
    then show ?thesis by simp
  next
    case (Some d)
    obtain destLoc n where d: "d = (destLoc, n)"
      by (cases d)
    show ?thesis
      unfolding Some d by (cases n) (simp_all add: silent_bind)
  qed
qed

lemma silent_checkPaths [simp]: "silent (checkPaths e srcStat destStat src dest)"
  unfolding checkPaths_def
  by (rule silent_bind) (auto split: option.splits prod.splits)

lemma silent_checkParentDir [simp]: "silent (checkParentDir e dest)"
  unfolding checkParentDir_def
  by (intro silent_bind silent_try_catch) simp_all

lemma silent_copy [simp]: "silent (copy e src dest)"
  unfolding copy_def
  by (intro silent_bind silent_try_catch) (simp_all split: node.splits)

lemma only_calls_mkdir: "only_calls (\<lambda>c. c = Mkdir p) (mkdir e p)"
  unfolding mkdir_def
  by (intro only_calls_bind) (simp_all add: silent_only_calls)

lemma only_calls_cp: "only_calls (\<lambda>c. c = Cp src dest) (cp e src dest)"
  unfolding cp_def
  by (intro only_calls_bind) (simp_all add: silent_only_calls)

lemma only_calls_rm: "only_calls (\<lambda>c. c = Rm p recursive) (rm e p recursive)"
  unfolding rm_def
  by (intro only_calls_bind) (simp_all add: silent_only_calls)

lemma only_calls_symlink: "only_calls (\<lambda>c. c = Symlink t p) (symlink e t p type)"
  unfolding symlink_def
  by (intro only_calls_bind) (simp_all add: silent_only_calls)

lemma writes_below_self: "call_target c = dir \<Longrightarrow> writes_below e dir c"
  unfolding writes_below_def by (intro exI [of _ "[]"]) simp

lemma writes_below_join:
  assumes "regular n" and "\<not> isExcluded n" and "writes_below e (join [dir, n]) c"
  shows "writes_below e dir c"
proof -
  from assms(3) obtain ns where
    ns: "resolved_segments e (call_target c) = resolved_segments e (join [dir, n]) @ ns"
      "\<forall>m \<in> set ns. regular m \<and> \<not> isExcluded m"
    by (auto simp: writes_below_def)
  have "resolved_segments e (call_target c) = resolved_segments e dir @ (n # ns)"
    using ns(1) by (simp add: resolved_segments_join [OF assms(1)])
  moreover have "\<forall>m \<in> set (n # ns). regular m \<and> \<not> isExcluded m"
    using assms(1,2) ns(2) by simp
  ultimately show ?thesis
    unfolding writes_below_def by blast
qed

lemma copyEntries_calls:
  assumes dir: "\<And>src dest. only_calls (writes_below e dest) (copyDirectory depth e src dest)"
    and names: "\<forall>d \<in> set entries. regular (entry_name d)"
  shows "only_calls (writes_below e dest) (copyEntries depth e src dest entries)"
  using names
proof (induction entries)
  case Nil
  then show ?case by simp
next
  case (Cons entry entries)
  let ?n = "entry_name entry"
  have rest: "only_calls (writes_below e dest) (copyEntries depth e src dest entries)"
    using Cons by simp
  have n: "regular ?n"
    using Cons.prems by simp
  show ?case
  proof (cases "isExcluded ?n")
    case True
    then show ?thesis
      using rest by simp
  next
    case False
    have "only_calls (writes_below e (join [dest, ?n]))
        (copyDirectory depth e (join [src, ?n]) (join [dest, ?n]))"
      by (rule dir)
    then have sub: "only_calls (writes_below e dest)
        (copyDirectory depth e (join [src, ?n]) (join [dest, ?n]))"
      by (rule only_calls_mono) (rule writes_below_join [OF n False])
    have "only_calls (\<lambda>c. c = Cp (join [src, ?n]) (join [dest, ?n]))
        (cp e (join [src, ?n]) (join [dest, ?n]))"
      by (rule only_calls_cp)
    then have plain: "only_calls (writes_below e dest) (cp e (join [src, ?n]) (join [dest, ?n]))"
      by (rule only_calls_mono)
        (rule writes_below_join [OF n False], rule writes_below_self, simp)
    show ?thesis
      using False sub plain rest
      by (simp add: Let_def only_calls_bind)
  qed
qed

lemma copyDirectory_calls:
  "only_calls (writes_below e dest) (copyDirectory depth e src dest)"
proof (induction depth arbitrary: src dest)
  case 0
  show ?case
    by (simp add: only_calls_def)
next
  case (Suc depth)
  have "only_calls (\<lambda>c. c = Mkdir dest) (mkdir e dest)"
    by (rule only_calls_mkdir)
  then have mk: "only_calls (writes_below e dest) (mkdir e dest)"
    by (rule only_calls_mono) (auto intro: writes_below_self)
  have rd: "only_calls (writes_below e dest) (readdir e src)"
    by (rule silent_only_calls) simp
  have loop: "only_calls (writes_below e dest) (copyEntries depth e src dest entries)"
    if "\<forall>d \<in> set entries. regular (entry_name d)" for entries
    using Suc.IH that by (rule copyEntries_calls)
  have "only_calls (writes_below e dest)
      (bind (readdir e src) (\<lambda>entries. copyEntries depth e src dest entries))"
    using rd
  proof (rule only_calls_bind_result)
    show "\<forall>d \<in> set entries. regular (entry_name d)"
      if "wf_fs s" "readdir e src s = Some (Inr entries, s')" for s entries s'
      using that by (rule readdir_result)
  qed (rule loop)
  then show ?case
    using mk by (simp add: only_calls_bind)
qed

lemma yields_silent:
  assumes "yields e v m"
  shows "silent m"
proof (rule silentI)
  fix s x s'
  assume "wf_fs s" and run: "m s = Some (x, s')"
  have "m s = Some (Inr v, s) \<or> m s = Some (Inl ENOENT, s)"
    using assms unfolding yields_def by (cases "host_ready e s") (auto split: if_splits)
  then have "s' = s"
    using run by auto
  then show "wf_fs s' \<and> calls s' = calls s"
    using \<open>wf_fs s\<close> by simp
qed

lemma createSymlink_calls:
  "only_calls (\<lambda>c. call_target c = linkPath \<or> c = Mkdir (join [linkPath, js ''..'']))
     (createSymlink e tgt linkPath)"
  (is "only_calls ?Q _")
proof -
  have rm: "only_calls ?Q (rm e linkPath r)" for r
    by (rule only_calls_mono [OF only_calls_rm]) simp
  have mk: "only_calls ?Q (mkdir e (join [linkPath, js ''..'']))"
    by (rule only_calls_mono [OF only_calls_mkdir]) simp
  have sl: "only_calls ?Q (symlink e t linkPath ty)" for t ty
    by (rule only_calls_mono [OF only_calls_symlink]) simp
  have ls: "only_calls ?Q (lstat e linkPath)" and rl: "only_calls ?Q (readlink e linkPath)"
    by (rule silent_only_calls, simp)+
  have rs: "only_calls ?Q (resolve_call e args)" for args
    by (rule silent_only_calls) (rule yields_silent [OF yields_resolve])
  have rv: "only_calls ?Q (relative_call e a b)" for a b
    by (rule silent_only_calls) (rule yields_silent [OF yields_relative])
  show ?thesis
    unfolding createSymlink_def Let_def
    by (intro only_calls_try_catch only_calls_bind ls rl rs rv mk sl only_calls_if rm
        only_calls_return)
      (simp_all add: only_calls_bind rm mk sl rv split: option.splits)
qed

lemma copy_into_calls: "only_calls (writes_below e dir) (copy_into depth e src dir)"
  unfolding copy_into_def
  by (intro only_calls_bind copyDirectory_calls)
    (rule only_calls_mono [OF only_calls_mkdir], simp add: writes_below_self)

lemma install_body_calls:
  "only_calls (install_call e canonicalDir agentDir)
     (install_body depth e src canonicalDir agentDir copyOnly)"
proof -
  have c: "only_calls (install_call e canonicalDir agentDir) (copy_into depth e src canonicalDir)"
    by (rule only_calls_mono [OF copy_into_calls]) (simp add: install_call_def)
  have a: "only_calls (install_call e canonicalDir agentDir) (copy_into depth e src agentDir)"
    by (rule only_calls_mono [OF copy_into_calls]) (simp add: install_call_def)
  have l: "only_calls (install_call e canonicalDir agentDir)
      (createSymlink e canonicalDir agentDir)"
    by (rule only_calls_mono [OF createSymlink_calls])
      (auto simp: install_call_def writes_below_self)
  show ?thesis
    unfolding install_body_def
    by (intro only_calls_bind c a l only_calls_if only_calls_return)
qed

lemma installSkillForAgent_calls:
  "only_calls
     (install_call e (install_canonicalDir e skill options)
        (install_agentDir e (agents agentType) skill options))
     (installSkillForAgent depth e agents skill agentType options)"
proof (rule only_callsI)
  fix s x s'
  assume wf: "wf_fs s"
    and run: "installSkillForAgent depth e agents skill agentType options s = Some (x, s')"
  let ?Q = "install_call e (install_canonicalDir e skill options)
      (install_agentDir e (agents agentType) skill options)"
  have checked: "only_calls ?Q (install_checked depth e agents skill agentType options)"
    unfolding install_checked_def
    by (intro only_calls_if only_calls_try_catch install_body_calls) simp_all
  from installSkillForAgent_eq_Some [OF run]
  show "wf_fs s' \<and> (\<exists>cs. calls s' = calls s @ cs \<and> (\<forall>c \<in> set cs. ?Q c))"
  proof
    assume "install_checked depth e agents skill agentType options s = Some (x, s')"
    then show ?thesis
      using only_callsD [OF checked wf] by blast
  next
    assume "\<not> host_ready e s \<and> x = Inl ENOENT \<and> s' = s"
    then show ?thesis
      using wf by simp
  qed
qed

lemma resolved_segments_parent:
  "resolved_segments e (join [b, js ''..'']) = butlast (resolved_segments e b)"
proof -
  have step: "normalize_step False R (js ''..'') = butlast R" if "\<forall>r \<in> set R. regular r" for R
  proof (cases "R = []")
    case True
    then show ?thesis by (simp add: normalize_step_def js_def)
  next
    case False
    then have "last R \<noteq> js ''..''"
      using that last_in_set [OF False] by (auto simp: regular_def)
    then show ?thesis
      using False by (simp add: normalize_step_def js_def)
  qed
  have sp: "split_slash (js ''..'') = [js ''..'']"
    by (simp add: js_def)
  show ?thesis
  proof (cases "b = []")
    case True
    have "join [b, js ''..''] = normalize (js ''..'')"
      using True by (simp add: join_def js_def)
    moreover have "resolved_segments e (js ''..'') = butlast (resolved_segments e [])"
      using step [OF normalize_segments_clean [of "split_slash (process_cwd e)"]]
      by (simp add: resolved_segments_def isAbsolute_def sp normalize_segments_append
          split_slash_segments)
        (simp add: js_def)
    ultimately show ?thesis
      using True by (simp add: resolved_segments_normalize)
  next
    case False
    then have "join [b, js ''..''] = normalize (b @ CHAR_FORWARD_SLASH # js ''..'')"
      by (simp add: join_def js_def)
    then show ?thesis
      using False step [OF resolved_segments_clean [of e b]]
      by (simp add: resolved_segments_normalize resolved_segments_append sp)
  qed
qed

lemma split_join_slash_regular:
  "ss \<noteq> [] \<Longrightarrow> \<forall>s \<in> set ss. regular s \<Longrightarrow> split_slash (join_slash ss) = ss"
  by (rule split_join_slash) (auto simp: regular_def)

lemma resolved_segments_join_list:
  assumes "\<forall>s \<in> set ss. regular s" and "ss \<noteq> []"
  shows "resolved_segments e (join (b # ss)) = resolved_segments e b @ ss"
proof -
  have ne: "filter (\<lambda>arg. arg \<noteq> []) ss = ss"
    using assms(1) by (auto simp: regular_def intro: filter_True)
  have js: "join_slash ss \<noteq> []" and rel: "\<not> isAbsolute (join_slash ss)"
  proof -
    have h: "hd ss \<noteq> [] \<and> slash_free (hd ss)"
      using assms by (simp add: regular_def)
    then show "join_slash ss \<noteq> []"
      using join_slash_first [OF assms(2)] by simp
    show "\<not> isAbsolute (join_slash ss)"
      using h join_slash_first [OF assms(2)]
      by (auto simp: isAbsolute_def slash_free_def) (metis hd_in_set)
  qed
  show ?thesis
  proof (cases "b = []")
    case True
    have "join (b # ss) = normalize (join_slash ss)"
      using True ne assms(2) by (cases ss) (simp_all add: join_def)
    moreover have "resolved_segments e (join_slash ss) = resolved_segments e [] @ ss"
      using rel assms
      by (simp add: resolved_segments_relative isAbsolute_def split_join_slash_regular
          foldl_normalize_regular)
    ultimately show ?thesis
      using True by (simp add: resolved_segments_normalize)
  next
    case False
    have "join_slash (b # ss) = b @ CHAR_FORWARD_SLASH # join_slash ss"
      using assms(2) by (cases ss) simp_all
    then have "join (b # ss) = normalize (b @ CHAR_FORWARD_SLASH # join_slash ss)"
      using False ne assms(2) by (simp add: join_def)
    then show ?thesis
      using False assms
      by (simp add: resolved_segments_normalize resolved_segments_append
          split_join_slash_regular foldl_normalize_regular)
  qed
qed

lemma canonicalBase_segments: "resolved_segments e (install_canonicalBase e options) \<noteq> []"
proof -
  have "\<forall>s \<in> set [AGENTS_DIR, SKILLS_SUBDIR]. regular s"
    by (simp add: AGENTS_DIR_def SKILLS_SUBDIR_def regular_def slash_free_def js_def)
  then have "resolved_segments e (join [b, AGENTS_DIR, SKILLS_SUBDIR])
      = resolved_segments e b @ [AGENTS_DIR, SKILLS_SUBDIR]" for b
    by (intro resolved_segments_join_list) simp_all
  then show ?thesis
    by (simp add: install_canonicalBase_def)
qed

lemma isPathSafe_join_regular:
  assumes "isAbsolute (process_cwd e)" and "regular x"
  shows "isPathSafe e b (join [b, x]) \<longleftrightarrow> resolved_segments e b \<noteq> []"
  using assms by (simp add: isPathSafe_segments resolved_segments_join)

lemma resolve_root_iff:
  assumes "isAbsolute (process_cwd e)"
  shows "resolve e [b] = js ''/'' \<longleftrightarrow> resolved_segments e b = []"
proof -
  have "join_slash (resolved_segments e b) = [] \<longleftrightarrow> resolved_segments e b = []"
    using resolved_segments_clean [of e b] by (intro join_slash_empty) (simp add: regular_def)
  then show ?thesis
    using assms by (simp add: resolve_segments js_def)
qed

lemma message_not_traversal: "message err \<noteq> traversal_detected"
  by (cases err) (simp_all add: traversal_detected_def js_def)

text \<open>What an install returns, and where its calls go.\<close>

lemma install_outcome:
  assumes "installSkillForAgent depth e agents skill agentType options s = Some (x, s')"
  defines "agentDir \<equiv> install_agentDir e (agents agentType) skill options"
    and "canonicalDir \<equiv> install_canonicalDir e skill options"
  shows "x = Inl ENOENT \<and> s' = s \<and> \<not> host_ready e s
     \<or> (if isPathSafe e (install_canonicalBase e options) canonicalDir
            \<and> isPathSafe e (install_agentBase e (agents agentType) options) agentDir
         then x = Inr (installed agentDir canonicalDir None)
              \<or> x = Inr (installed agentDir canonicalDir (Some True))
              \<or> (\<exists>err. x = Inr (failed_with agentDir (message err)))
         else x = Inr (failed_with agentDir traversal_detected) \<and> s' = s)"
  using installSkillForAgent_eq_Some [OF assms(1)] unfolding agentDir_def canonicalDir_def
  by (auto simp: install_checked_def try_catch_eq_Some install_body_eq_Some
      split: if_splits)

lemma writes_below_safe:
  assumes cwd: "isAbsolute (process_cwd e)" and x: "regular x"
    and base: "resolved_segments e b \<noteq> []"
    and c: "writes_below e (join [b, x]) c"
  shows "isPathSafe e b (call_target c)"
proof -
  from c obtain ns where "resolved_segments e (call_target c) = resolved_segments e b @ x # ns"
    by (auto simp: writes_below_def resolved_segments_join [OF x])
  then show ?thesis
    using cwd base by (simp add: isPathSafe_segments)
qed

lemma writes_below_not_excluded:
  assumes "writes_below e dir c" and "regular n" and "isExcluded n"
  shows "\<not> prefix (resolved_segments e (join [dir, n])) (resolved_segments e (call_target c))"
proof
  assume p: "prefix (resolved_segments e (join [dir, n])) (resolved_segments e (call_target c))"
  from assms(1) obtain ns where
    ns: "resolved_segments e (call_target c) = resolved_segments e dir @ ns"
      "\<forall>m \<in> set ns. regular m \<and> \<not> isExcluded m"
    by (auto simp: writes_below_def)
  have "prefix (resolved_segments e dir @ [n]) (resolved_segments e dir @ ns)"
    using p ns(1) by (simp add: resolved_segments_join [OF assms(2)])
  then have "prefix [n] ns"
    by simp
  then have "n \<in> set ns"
    by (auto simp: prefix_def)
  then show False
    using ns(2) assms(3) by blast
qed

lemma install_throws_without_cwd:
  assumes "cwd options = None \<or> cwd options = Some []" and "\<not> cwd_exists e s"
  shows "installSkillForAgent depth e agents skill agentType options s = Some (Inl ENOENT, s)"
  using assms
  by (auto simp: installSkillForAgent_def Let_def or_call_def bind_def process_cwd_call_def)

lemma install_throws_without_homedir:
  assumes "truthy (global options)" and "no_homedir e"
  shows "\<exists>err. installSkillForAgent depth e agents skill agentType options s = Some (Inl err, s)"
proof -
  have "or_call (cwd options) (process_cwd_call e) s = Some (Inr v, s)
      \<or> or_call (cwd options) (process_cwd_call e) s = Some (Inl ENOENT, s)"
    if "v = or_else (cwd options) (process_cwd e)" for v
    using yields_or_call [of e "cwd options"] unfolding yields_def that
    by (cases "host_ready e s") (auto split: if_splits)
  then show ?thesis
    using assms
    by (auto simp: installSkillForAgent_def Let_def bind_def getCanonicalSkillsDir_def
        homedir_call_def throw_def split: option.splits sum.splits)
qed
section \<open>Runs of the examples\<close>

lemma install_demo_run:
  "installSkillForAgent 3 host example_agents (skill_named ''demo'') ClaudeCode project_options
     plain_source
   = Some (Inr (installed (js ''/proj/.claude/skills/demo'') (js ''/proj/.agents/skills/demo'')
        None), installed_once)"
  by code_simp

lemma demo_paths:
  "install_agentDir host (example_agents ClaudeCode) (skill_named ''demo'') project_options
     = js ''/proj/.claude/skills/demo''"
  "install_canonicalDir host (skill_named ''demo'') project_options
     = js ''/proj/.agents/skills/demo''"
  "Skill.path (skill_named ''demo'') = js ''/src/skill''"
  by code_simp+

lemma demo_safe:
  "isPathSafe host (install_canonicalBase host project_options) (js ''/proj/.agents/skills/demo'')
   \<and> isPathSafe host (install_agentBase host (example_agents ClaudeCode) project_options)
       (js ''/proj/.claude/skills/demo'')"
  by code_simp


lemma install_etc_run:
  "installSkillForAgent 3 host example_agents (skill_named ''../../etc'') ClaudeCode
     project_options plain_source
   = Some (Inr (installed (js ''/proj/.claude/skills/etc'') (js ''/proj/.agents/skills/etc'')
        None), etc_installed)"
  by code_simp

lemma install_admin_run:
  "installSkillForAgent 3 host example_agents (skill_named ''demo'') ClaudeCode project_options
     admin_source
   = Some (Inr (installed (js ''/proj/.claude/skills/demo'') (js ''/proj/.agents/skills/demo'')
        None), admin_installed)"
  by code_simp

lemma example_states_wf: "wf_fs plain_source" "wf_fs admin_source"
  by code_simp+

lemma host_cwd_absolute: "isAbsolute (process_cwd host)"
  by code_simp

lemma example_states_ready:
  "host_ready host unlinkable_source" "host_ready host no_source"
  "\<not> cwd_exists host no_project" "cwd default_options = None"
  by code_simp+

lemma etc_paths:
  "install_canonicalBase host project_options = js ''/proj/.agents/skills''"
  "install_agentBase host (example_agents ClaudeCode) project_options = js ''/proj/.claude/skills''"
  "install_skillName (skill_named ''../../etc'') = js ''etc''"
  by code_simp+
section \<open>Claims\<close>



text \<open>
  C4, as amended. \<open>sanitizeName\<close> returns a string that is not empty, that has none of
  \<open>/\<close>, \<open>\\<close>, \<open>:\<close> and the null character, that does not start with a dot or a white space,
  and that has at most 255 code units; a name that is empty after the replacements gives
  \<open>unnamed-skill\<close>. The result does not end with a dot or a white space when the name after
  the replacements has at most 255 code units, which is so when the name itself has, and
  when the result is shorter than 255.
\<close>

theorem sanitizeName_result:
  "sanitizeName nm \<noteq> []
   \<and> (\<forall>c \<in> set (sanitizeName nm).
        c \<noteq> CHAR_FORWARD_SLASH \<and> c \<noteq> CHAR_BACKWARD_SLASH \<and> c \<noteq> CHAR_COLON \<and> c \<noteq> CHAR_NUL)
   \<and> \<not> dot_or_space (hd (sanitizeName nm))
   \<and> (length (stripped_name nm) \<le> 255 \<or> length nm \<le> 255
        \<or> length (sanitizeName nm) < 255
       \<longrightarrow> \<not> dot_or_space (last (sanitizeName nm)))
   \<and> length (sanitizeName nm) \<le> 255
   \<and> (stripped_name nm = [] \<longrightarrow> sanitizeName nm = js ''unnamed-skill'')"
proof -
  have "length (stripped_name nm) \<le> 255"
    if "length (stripped_name nm) \<le> 255 \<or> length nm \<le> 255
        \<or> length (sanitizeName nm) < 255"
    using that stripped_name_length [of nm] sanitizeName_untruncated [of nm] by auto
  then show ?thesis
    using sanitizeName_nonempty [of nm] sanitizeName_hd [of nm] sanitizeName_length [of nm]
      sanitizeName_last [of nm] sanitizeName_no_path_char [of _ nm]
    by (auto simp: path_char_def sanitizeName_stripped)
qed

theorem sanitizeName_result_witness:
  "sanitizeName (js '' ../a:b. '') = js ''ab''
   \<and> length (js '' ../a:b. '') \<le> 255
   \<and> \<not> dot_or_space (last (sanitizeName (js '' ../a:b. '')))
   \<and> stripped_name (js ''./.'') = []
   \<and> sanitizeName (js ''./.'') = js ''unnamed-skill''"
proof -
  have v: "sanitizeName (js '' ../a:b. '') = js ''ab''"
    by code_simp
  have l: "length (js '' ../a:b. '') \<le> 255"
    by (simp add: js_def)
  have e: "stripped_name (js ''./.'') = []"
    by code_simp
  from sanitizeName_result [of "js '' ../a:b. ''"] sanitizeName_result [of "js ''./.''"] v l e
  show ?thesis
    by simp
qed

text \<open>
  C4 as stated fails on a long nm: the cut to 255 code units comes after the trimming, so
  it can leave a dot at the end.
\<close>

theorem sanitizeName_trailing_dot_counterexample:
  "length long_name = 256
   \<and> sanitizeName long_name = replicate 254 0x61 @ js ''.''
   \<and> dot_or_space (last (sanitizeName long_name))"
  by code_simp
text \<open>
  C1. When the agent reads its skills from the canonical directory itself, as \<open>amp\<close> does,
  \<open>installSkillForAgent\<close> does not skip \<open>createSymlink\<close>: the directory just copied is
  removed and a symbolic link to itself takes its place. The result says \<open>success\<close> without
  \<open>symlinkFailed\<close>, and following the path gives \<open>ELOOP\<close>.
\<close>

theorem self_loop_install:
  "installSkillForAgent 3 host example_agents (skill_named ''self-loop-skill'') Amp
     project_options plain_source
   = Some (Inr (installed (js ''/proj/.agents/skills/self-loop-skill'')
        (js ''/proj/.agents/skills/self-loop-skill'') None), self_loop_state)
   \<and> lstat host (js ''/proj/.agents/skills/self-loop-skill'') self_loop_state
       = Some (Inr (Link (js ''self-loop-skill'')), self_loop_state)
   \<and> stat host (js ''/proj/.agents/skills/self-loop-skill'') self_loop_state
       = Some (Inl ELOOP, self_loop_state)"
  by code_simp

text \<open>
  C3. \<open>copyDirectory\<close> hands a symbolic link of the source to \<open>cp\<close>, which creates a symbolic
  link at the destination: \<open>data\<close> is a link there, and \<open>info.txt\<close> is not copied.
\<close>

theorem source_link_copied_as_link:
  "copyDirectory 2 host (js ''/src/skill'') (js ''/proj/out'') linked_source
     = Some (Inr (), after linked_source
         [([''proj'', ''out''], Dir), ([''proj'', ''out'', ''SKILL.md''], File (js ''name: demo'')),
          ([''proj'', ''out'', ''data''], Link (js ''/src/shared-data''))]
         [Mkdir (js ''/proj/out''), Cp (js ''/src/skill/SKILL.md'') (js ''/proj/out/SKILL.md''),
          Cp (js ''/src/skill/data'') (js ''/proj/out/data'')])"
  by code_simp

text \<open>
  C5. After a first install the link of the agent leads to the canonical directory, and
  \<open>createSymlink\<close> still removes it and creates it again: the target it reads from the link
  is relative to the directory of the link, and \<open>resolve\<close> takes it from the working directory
  of the process.
\<close>

theorem correct_link_recreated:
  "stat_at host True (js ''/proj/.claude/skills/demo'') installed_once
     = Some (Inr (map js [''proj'', ''.agents'', ''skills'', ''demo''], Dir), installed_once)
   \<and> stat_at host True (js ''/proj/.agents/skills/demo'') installed_once
     = Some (Inr (map js [''proj'', ''.agents'', ''skills'', ''demo''], Dir), installed_once)
   \<and> createSymlink host (js ''/proj/.agents/skills/demo'') (js ''/proj/.claude/skills/demo'')
       installed_once
     = Some (Inr True, after installed_once []
         [Rm (js ''/proj/.claude/skills/demo'') False, Mkdir (js ''/proj/.claude/skills''),
          Symlink (js ''../../.agents/skills/demo'') (js ''/proj/.claude/skills/demo'')])"
  by code_simp

text \<open>
  C7. A symbolic link of the source that leads nowhere is copied as the link it is: the
  install succeeds, and the entry \<open>broken\<close> is in the canonical directory.
\<close>

theorem broken_link_copied:
  "installSkillForAgent 3 host example_agents (skill_named ''demo'') ClaudeCode project_options
     broken_source
   = Some (Inr (installed (js ''/proj/.claude/skills/demo'') (js ''/proj/.agents/skills/demo'')
        None),
      after broken_source
        [([''proj'', ''.agents''], Dir), ([''proj'', ''.agents'', ''skills''], Dir),
         ([''proj'', ''.agents'', ''skills'', ''demo''], Dir),
         ([''proj'', ''.agents'', ''skills'', ''demo'', ''SKILL.md''], File (js ''name: demo'')),
         ([''proj'', ''.agents'', ''skills'', ''demo'', ''broken''],
          Link (js ''/src/non-existent-dir'')),
         ([''proj'', ''.claude''], Dir), ([''proj'', ''.claude'', ''skills''], Dir),
         ([''proj'', ''.claude'', ''skills'', ''demo''], Link (js ''../../.agents/skills/demo''))]
        [Mkdir (js ''/proj/.agents/skills/demo''), Mkdir (js ''/proj/.agents/skills/demo''),
         Cp (js ''/src/skill/SKILL.md'') (js ''/proj/.agents/skills/demo/SKILL.md''),
         Cp (js ''/src/skill/broken'') (js ''/proj/.agents/skills/demo/broken''),
         Mkdir (js ''/proj/.claude/skills''),
         Symlink (js ''../../.agents/skills/demo'') (js ''/proj/.claude/skills/demo'')])"
  by code_simp

text \<open>
  C10. With a name that is not empty, the \<open>path\<close> of the result of \<open>installSkillForAgent\<close> is
  the path that \<open>getInstallPath\<close> returns for the same agent and options; where
  \<open>getInstallPath\<close> throws, the install has failed with the message thrown.
\<close>

theorem install_path_is_getInstallPath:
  assumes "name skill \<noteq> []"
    and "installSkillForAgent depth e agents skill agentType options s = Some (Inr r, s')"
  shows "case getInstallPath e agents (name skill) agentType options of
           Inr p \<Rightarrow> path r = p
         | Inl msg \<Rightarrow> \<not> success r \<and> error r = Some msg"
proof -
  let ?base = "install_agentBase e (agents agentType) options"
  have dir: "install_agentDir e (agents agentType) skill options
      = join [?base, sanitizeName (name skill)]"
    using assms(1) by (simp add: install_agentDir_def install_skillName_def)
  show ?thesis
  proof (cases "isPathSafe e ?base (join [?base, sanitizeName (name skill)])")
    case True
    then show ?thesis
      using install_result_path [OF assms(2)] dir by (simp add: getInstallPath_unfold)
  next
    case False
    then have "r = failed_with (install_agentDir e (agents agentType) skill options)
        traversal_detected"
      using install_outcome [OF assms(2)] dir by (auto split: if_splits)
    then show ?thesis
      using False by (simp add: getInstallPath_unfold failed_with_def)
  qed
qed

theorem install_path_is_getInstallPath_witness:
  "name (skill_named ''demo'') \<noteq> []
   \<and> installSkillForAgent 3 host example_agents (skill_named ''demo'') ClaudeCode
       project_options plain_source
     = Some (Inr (installed (js ''/proj/.claude/skills/demo'') (js ''/proj/.agents/skills/demo'')
         None), installed_once)
   \<and> getInstallPath host example_agents (name (skill_named ''demo'')) ClaudeCode project_options
     = Inr (js ''/proj/.claude/skills/demo'')
   \<and> path (installed (js ''/proj/.claude/skills/demo'') (js ''/proj/.agents/skills/demo'') None)
     = js ''/proj/.claude/skills/demo''"
proof -
  have n: "name (skill_named ''demo'') \<noteq> []"
    by code_simp
  have g: "getInstallPath host example_agents (name (skill_named ''demo'')) ClaudeCode
      project_options = Inr (js ''/proj/.claude/skills/demo'')"
    by code_simp
  from install_path_is_getInstallPath [OF n install_demo_run] n g install_demo_run
  show ?thesis
    by simp
qed

text \<open>
  C6 as stated fails: \<open>process.cwd()\<close> is called before the \<open>try\<close>, and what it throws is
  thrown to the caller. Here the directory the process works in has been removed and no
  \<open>cwd\<close> is given.
\<close>

theorem install_throws_without_cwd_counterexample:
  "installSkillForAgent 3 host example_agents (skill_named ''demo'') ClaudeCode default_options
     no_project
   = Some (Inl ENOENT, no_project)"
  by code_simp

text \<open>
  C6, as amended. \<open>installSkillForAgent\<close> throws only what \<open>process.cwd()\<close> and \<open>homedir()\<close>
  throw while the paths are computed and checked, before the \<open>try\<close>: the error is then
  \<open>ENOENT\<close>, nothing has been written, and the working directory is not there or the home
  directory is not known; it does throw when no \<open>cwd\<close> is given and the working directory
  is not there. \<open>createSymlink\<close> never throws. A result has the path of the agent and is
  one of: installed, installed with \<open>symlinkFailed\<close>, failed with a message. Where the
  working directory is there and the home directory known, an error thrown while the
  canonical copy is made, or while the copy for the agent is made (asked for with
  \<open>noSymlink\<close>, or after \<open>createSymlink\<close> has returned false), comes back as the failed
  result with the message of the error; when that copy completes after \<open>createSymlink\<close>
  has returned false, the result is installed with \<open>symlinkFailed\<close>, in the state that the
  copy has left.
\<close>

theorem install_throws_only_before_try:
  fixes e :: env and agents :: "AgentType \<Rightarrow> AgentConfig" and skill :: Skill
    and agentType :: AgentType and options :: InstallOptions and depth :: nat
  defines "agentDir \<equiv> install_agentDir e (agents agentType) skill options"
    and "canonicalDir \<equiv> install_canonicalDir e skill options"
    and "install \<equiv> installSkillForAgent depth e agents skill agentType options"
    and "safe \<equiv> isPathSafe e (install_canonicalBase e options)
                  (install_canonicalDir e skill options)
                \<and> isPathSafe e (install_agentBase e (agents agentType) options)
                  (install_agentDir e (agents agentType) skill options)"
    and "copy_to \<equiv> \<lambda>dir. bind (mkdir e dir) (\<lambda>_. copyDirectory depth e (Skill.path skill) dir)"
  shows
    "(\<forall>s err s'. install s = Some (Inl err, s') \<longrightarrow>
        err = ENOENT \<and> s' = s \<and> (\<not> cwd_exists e s \<or> no_homedir e))
     \<and> (\<forall>s. (cwd options = None \<or> cwd options = Some []) \<longrightarrow> \<not> cwd_exists e s \<longrightarrow>
          install s = Some (Inl ENOENT, s))
     \<and> (\<forall>s err s'. createSymlink e canonicalDir agentDir s \<noteq> Some (Inl err, s'))
     \<and> (\<forall>s r s'. install s = Some (Inr r, s') \<longrightarrow>
          path r = agentDir
          \<and> (success r \<longrightarrow>
               r = installed agentDir canonicalDir None
               \<or> r = installed agentDir canonicalDir (Some True))
          \<and> (\<not> success r \<longrightarrow>
               r = failed_with agentDir traversal_detected
               \<or> (\<exists>err. r = failed_with agentDir (message err))))
     \<and> (\<forall>s err s'. safe \<longrightarrow> cwd_exists e s \<and> \<not> no_homedir e \<longrightarrow>
          copy_to canonicalDir s = Some (Inl err, s') \<longrightarrow>
          install s = Some (Inr (failed_with agentDir (message err)), s'))
     \<and> (\<forall>s s1 x s'. safe \<longrightarrow> cwd_exists e s \<and> \<not> no_homedir e \<longrightarrow>
          truthy (noSymlink options) \<longrightarrow>
          copy_to canonicalDir s = Some (Inr (), s1) \<longrightarrow>
          copy_to agentDir s1 = Some (x, s') \<longrightarrow>
          install s = Some (Inr (case x of
              Inl err \<Rightarrow> failed_with agentDir (message err)
            | Inr u \<Rightarrow> installed agentDir canonicalDir None), s'))
     \<and> (\<forall>s s1 s2 x s'. safe \<longrightarrow> cwd_exists e s \<and> \<not> no_homedir e \<longrightarrow>
          \<not> truthy (noSymlink options) \<longrightarrow>
          copy_to canonicalDir s = Some (Inr (), s1) \<longrightarrow>
          createSymlink e canonicalDir agentDir s1 = Some (Inr False, s2) \<longrightarrow>
          copy_to agentDir s2 = Some (x, s') \<longrightarrow>
          install s = Some (Inr (case x of
              Inl err \<Rightarrow> failed_with agentDir (message err)
            | Inr u \<Rightarrow> installed agentDir canonicalDir (Some True)), s'))"
proof -
  define checked where "checked = install_checked depth e agents skill agentType options"
  have body: "checked = (if \<not> safe then return (failed_with agentDir traversal_detected)
      else try_catch
             (install_body depth e (Skill.path skill) canonicalDir agentDir
                (truthy (noSymlink options)))
             (\<lambda>err. return (failed_with agentDir (message err))))"
    unfolding checked_def safe_def agentDir_def canonicalDir_def
    by (simp add: install_checked_def)
  have ready: "install s = checked s" if "cwd_exists e s \<and> \<not> no_homedir e" for s
    unfolding install_def checked_def using that
    by (intro installSkillForAgent_ready) (simp add: host_ready_def)
  have out: "checked s = Some (x, s') \<or> \<not> host_ready e s \<and> x = Inl ENOENT \<and> s' = s"
    if "install s = Some (x, s')" for s x s'
    using that unfolding install_def checked_def by (rule installSkillForAgent_eq_Some)
  have copy: "copy_to = copy_into depth e (Skill.path skill)"
    by (simp add: copy_to_def copy_into_def fun_eq_iff)
  have never: "checked s \<noteq> Some (Inl err, s')" for s err s'
    by (auto simp: body try_catch_eq_Some)
  have 1: "\<forall>s err s'. install s = Some (Inl err, s') \<longrightarrow>
        err = ENOENT \<and> s' = s \<and> (\<not> cwd_exists e s \<or> no_homedir e)"
    using out never by (fastforce simp: host_ready_def)
  have 2: "\<forall>s. (cwd options = None \<or> cwd options = Some []) \<longrightarrow> \<not> cwd_exists e s \<longrightarrow>
          install s = Some (Inl ENOENT, s)"
    unfolding install_def by (intro allI impI install_throws_without_cwd)
  have 3: "\<forall>s err s'. createSymlink e canonicalDir agentDir s \<noteq> Some (Inl err, s')"
    by (simp add: createSymlink_never_throws)
  have shape: "path r = agentDir
          \<and> (success r \<longrightarrow>
               r = installed agentDir canonicalDir None
               \<or> r = installed agentDir canonicalDir (Some True))
          \<and> (\<not> success r \<longrightarrow>
               r = failed_with agentDir traversal_detected
               \<or> (\<exists>err. r = failed_with agentDir (message err)))"
    if "checked s = Some (Inr r, s')" for s r s'
    using that
    by (auto simp: body try_catch_eq_Some install_body_eq_Some installed_def failed_with_def
        split: if_splits)
  have 4: "\<forall>s r s'. install s = Some (Inr r, s') \<longrightarrow>
          path r = agentDir
          \<and> (success r \<longrightarrow>
               r = installed agentDir canonicalDir None
               \<or> r = installed agentDir canonicalDir (Some True))
          \<and> (\<not> success r \<longrightarrow>
               r = failed_with agentDir traversal_detected
               \<or> (\<exists>err. r = failed_with agentDir (message err)))"
  proof (intro allI impI)
    fix s r s'
    assume "install s = Some (Inr r, s')"
    then have "checked s = Some (Inr r, s')"
      using out by blast
    then show "path r = agentDir
          \<and> (success r \<longrightarrow>
               r = installed agentDir canonicalDir None
               \<or> r = installed agentDir canonicalDir (Some True))
          \<and> (\<not> success r \<longrightarrow>
               r = failed_with agentDir traversal_detected
               \<or> (\<exists>err. r = failed_with agentDir (message err)))"
      by (rule shape)
  qed
  have 5: "\<forall>s err s'. safe \<longrightarrow> cwd_exists e s \<and> \<not> no_homedir e \<longrightarrow>
          copy_to canonicalDir s = Some (Inl err, s') \<longrightarrow>
          install s = Some (Inr (failed_with agentDir (message err)), s')"
    by (auto simp: ready body copy try_catch_eq_Some install_body_eq_Some)
  have 6: "\<forall>s s1 x s'. safe \<longrightarrow> cwd_exists e s \<and> \<not> no_homedir e \<longrightarrow>
          truthy (noSymlink options) \<longrightarrow>
          copy_to canonicalDir s = Some (Inr (), s1) \<longrightarrow>
          copy_to agentDir s1 = Some (x, s') \<longrightarrow>
          install s = Some (Inr (case x of
              Inl err \<Rightarrow> failed_with agentDir (message err)
            | Inr u \<Rightarrow> installed agentDir canonicalDir None), s')"
    by (auto simp: ready body copy try_catch_eq_Some install_body_eq_Some split: sum.splits)
  have 7: "\<forall>s s1 s2 x s'. safe \<longrightarrow> cwd_exists e s \<and> \<not> no_homedir e \<longrightarrow>
          \<not> truthy (noSymlink options) \<longrightarrow>
          copy_to canonicalDir s = Some (Inr (), s1) \<longrightarrow>
          createSymlink e canonicalDir agentDir s1 = Some (Inr False, s2) \<longrightarrow>
          copy_to agentDir s2 = Some (x, s') \<longrightarrow>
          install s = Some (Inr (case x of
              Inl err \<Rightarrow> failed_with agentDir (message err)
            | Inr u \<Rightarrow> installed agentDir canonicalDir (Some True)), s')"
    by (auto simp: ready body copy try_catch_eq_Some install_body_eq_Some split: sum.splits)
  from 1 2 3 4 5 6 7 show ?thesis by blast
qed

theorem install_throws_only_before_try_witness:
  "\<not> truthy (noSymlink project_options)
   \<and> cwd_exists host unlinkable_source \<and> \<not> no_homedir host
   \<and> bind (mkdir host (js ''/proj/.agents/skills/demo''))
       (\<lambda>_. copyDirectory 3 host (js ''/src/skill'') (js ''/proj/.agents/skills/demo''))
       unlinkable_source = Some (Inr (), canonical_copied)
   \<and> createSymlink host (js ''/proj/.agents/skills/demo'') (js ''/proj/.claude/skills/demo'')
       canonical_copied = Some (Inr False, link_refused)
   \<and> bind (mkdir host (js ''/proj/.claude/skills/demo''))
       (\<lambda>_. copyDirectory 3 host (js ''/src/skill'') (js ''/proj/.claude/skills/demo''))
       link_refused = Some (Inr (), agent_copied)
   \<and> installSkillForAgent 3 host example_agents (skill_named ''demo'') ClaudeCode
       project_options unlinkable_source
     = Some (Inr (installed (js ''/proj/.claude/skills/demo'') (js ''/proj/.agents/skills/demo'')
         (Some True)), agent_copied)
   \<and> lstat host (js ''/proj/.claude/skills/demo/SKILL.md'') agent_copied
     = Some (Inr (File (js ''name: demo'')), agent_copied)
   \<and> cwd_exists host no_source
   \<and> bind (mkdir host (js ''/proj/.agents/skills/demo''))
       (\<lambda>_. copyDirectory 3 host (js ''/src/skill'') (js ''/proj/.agents/skills/demo''))
       no_source = Some (Inl ENOENT, no_source_failed)
   \<and> installSkillForAgent 3 host example_agents (skill_named ''demo'') ClaudeCode
       project_options no_source
     = Some (Inr (failed_with (js ''/proj/.claude/skills/demo'') (message ENOENT)),
         no_source_failed)
   \<and> cwd default_options = None \<and> \<not> cwd_exists host no_project
   \<and> installSkillForAgent 3 host example_agents (skill_named ''demo'') ClaudeCode
       default_options no_project
     = Some (Inl ENOENT, no_project)"
proof -
  have ns: "\<not> truthy (noSymlink project_options)"
    by code_simp
  have r1: "cwd_exists host unlinkable_source \<and> \<not> no_homedir host"
    and r2: "cwd_exists host no_source \<and> \<not> no_homedir host"
    using example_states_ready(1,2) by (simp_all add: host_ready_def)
  have w1: "bind (mkdir host (js ''/proj/.agents/skills/demo''))
       (\<lambda>_. copyDirectory 3 host (js ''/src/skill'') (js ''/proj/.agents/skills/demo''))
       unlinkable_source = Some (Inr (), canonical_copied)"
    by code_simp
  have w2: "createSymlink host (js ''/proj/.agents/skills/demo'') (js ''/proj/.claude/skills/demo'')
       canonical_copied = Some (Inr False, link_refused)"
    by code_simp
  have w3: "bind (mkdir host (js ''/proj/.claude/skills/demo''))
       (\<lambda>_. copyDirectory 3 host (js ''/src/skill'') (js ''/proj/.claude/skills/demo''))
       link_refused = Some (Inr (), agent_copied)"
    by code_simp
  have w4: "lstat host (js ''/proj/.claude/skills/demo/SKILL.md'') agent_copied
     = Some (Inr (File (js ''name: demo'')), agent_copied)"
    by code_simp
  have w5: "bind (mkdir host (js ''/proj/.agents/skills/demo''))
       (\<lambda>_. copyDirectory 3 host (js ''/src/skill'') (js ''/proj/.agents/skills/demo''))
       no_source = Some (Inl ENOENT, no_source_failed)"
    by code_simp
  note T = install_throws_only_before_try [where e = host and agents = example_agents
      and skill = "skill_named ''demo''" and agentType = ClaudeCode
      and options = project_options and depth = 3, unfolded demo_paths]
  note U = install_throws_only_before_try [where e = host and agents = example_agents
      and skill = "skill_named ''demo''" and agentType = ClaudeCode
      and options = default_options and depth = 3]
  from T have fallback: "\<forall>s s1 s2 x s'.
      isPathSafe host (install_canonicalBase host project_options) (js ''/proj/.agents/skills/demo'')
      \<and> isPathSafe host (install_agentBase host (example_agents ClaudeCode) project_options)
          (js ''/proj/.claude/skills/demo'') \<longrightarrow>
      cwd_exists host s \<and> \<not> no_homedir host \<longrightarrow>
      \<not> truthy (noSymlink project_options) \<longrightarrow>
      bind (mkdir host (js ''/proj/.agents/skills/demo''))
        (\<lambda>_. copyDirectory 3 host (js ''/src/skill'') (js ''/proj/.agents/skills/demo'')) s
        = Some (Inr (), s1) \<longrightarrow>
      createSymlink host (js ''/proj/.agents/skills/demo'') (js ''/proj/.claude/skills/demo'') s1
        = Some (Inr False, s2) \<longrightarrow>
      bind (mkdir host (js ''/proj/.claude/skills/demo''))
        (\<lambda>_. copyDirectory 3 host (js ''/src/skill'') (js ''/proj/.claude/skills/demo'')) s2
        = Some (x, s') \<longrightarrow>
      installSkillForAgent 3 host example_agents (skill_named ''demo'') ClaudeCode
        project_options s
        = Some (Inr (case x of
              Inl err \<Rightarrow> failed_with (js ''/proj/.claude/skills/demo'') (message err)
            | Inr u \<Rightarrow> installed (js ''/proj/.claude/skills/demo'')
                (js ''/proj/.agents/skills/demo'') (Some True)), s')"
    by (elim conjE)
  from T have thrown: "\<forall>s err s'.
      isPathSafe host (install_canonicalBase host project_options) (js ''/proj/.agents/skills/demo'')
      \<and> isPathSafe host (install_agentBase host (example_agents ClaudeCode) project_options)
          (js ''/proj/.claude/skills/demo'') \<longrightarrow>
      cwd_exists host s \<and> \<not> no_homedir host \<longrightarrow>
      bind (mkdir host (js ''/proj/.agents/skills/demo''))
        (\<lambda>_. copyDirectory 3 host (js ''/src/skill'') (js ''/proj/.agents/skills/demo'')) s
        = Some (Inl err, s') \<longrightarrow>
      installSkillForAgent 3 host example_agents (skill_named ''demo'') ClaudeCode
        project_options s
        = Some (Inr (failed_with (js ''/proj/.claude/skills/demo'') (message err)), s')"
    by (elim conjE)
  from U have rejected: "\<forall>s. (cwd default_options = None \<or> cwd default_options = Some []) \<longrightarrow>
      \<not> cwd_exists host s \<longrightarrow>
      installSkillForAgent 3 host example_agents (skill_named ''demo'') ClaudeCode
        default_options s = Some (Inl ENOENT, s)"
    by (elim conjE)
  have none: "cwd default_options = None \<or> cwd default_options = Some []"
    using example_states_ready(4) by simp
  from fallback [rule_format, OF demo_safe r1 ns w1 w2 w3]
    thrown [rule_format, OF demo_safe r2 w5]
    rejected [rule_format, OF none example_states_ready(3)]
    ns r1 r2 w1 w2 w3 w4 w5 example_states_ready(3,4)
  show ?thesis by simp
qed








end
